theory Spec2Isabelle
  imports
    Main
    "HOL-Library.List_Lexorder"
    "HOL-Library.FSet"
    "HOL-Library.AList"
    "HOL-Library.Multiset"
begin

section \<open>Python values used by the page checker\<close>

text \<open>
  A Python \<open>str\<close> is a sequence of Unicode code points, so it is modelled as a list of
  natural numbers: \<open>len\<close> is \<^const>\<open>length\<close> and the comparison of two strings is the
  lexicographic order of their code points (the order of \<^theory_text>\<open>List_Lexorder\<close>).
  ASCII literals of the source are written \<open>u ''...''\<close>.
\<close>

type_synonym str = "nat list"

definition u :: "string \<Rightarrow> str" where
  "u s = map of_char s"

text \<open>
  The library tables and functions the program calls but does not define: the Unicode
  character database behind \<open>str.isspace\<close>, \<open>str.isdigit\<close>, \<open>int\<close>, \<open>\d\<close>, \<open>str.lower\<close> and
  \<open>re.IGNORECASE\<close>, and \<open>urllib.parse\<close>. They are parameters of every definition below.
  \<^item> \<open>isspace c\<close>: \<open>c\<close> is whitespace for \<open>str.strip\<close>;
  \<^item> \<open>isdigit c\<close>: \<open>c\<close> has Numeric_Type Digit or Decimal (\<open>str.isdigit\<close>);
  \<^item> \<open>decimal c\<close>: the value of \<open>c\<close> when it has Numeric_Type Decimal, which is what \<open>\d\<close>
    matches and what \<open>int\<close> accepts;
  \<^item> \<open>lower s\<close>: \<open>s.lower()\<close>;
  \<^item> \<open>ci_eq p c\<close>: the pattern character \<open>p\<close> matches \<open>c\<close> under \<open>re.IGNORECASE\<close>;
  \<^item> \<open>urljoin b r\<close>, and \<open>urlpath x\<close>, \<open>urlorigin x\<close> for \<open>urlparse(x).path\<close> and
    \<open>scheme://netloc\<close> of \<open>urlparse(x)\<close>;
  \<^item> \<open>int_max_str_digits\<close>: the interpreter's \<open>sys.get_int_max_str_digits()\<close>, the greatest
    number of digits that \<open>int\<close> converts (4300 unless configured, at least 640), or 0 for
    an interpreter without this limit.
\<close>

record pylib =
  isspace :: "nat \<Rightarrow> bool"
  isdigit :: "nat \<Rightarrow> bool"
  decimal :: "nat \<Rightarrow> nat option"
  lower :: "str \<Rightarrow> str"
  ci_eq :: "nat \<Rightarrow> nat \<Rightarrow> bool"
  urljoin :: "str \<Rightarrow> str \<Rightarrow> str"
  urlpath :: "str \<Rightarrow> str"
  urlorigin :: "str \<Rightarrow> str"
  int_max_str_digits :: nat

datatype exn = ValueError | TypeError | KeyError | RuntimeError | RequestError

text \<open>\<open>s.strip()\<close>, \<open>s.rstrip('/')\<close>, \<open>s.isdigit()\<close>, \<open>s.startswith(p)\<close>.\<close>

definition strip :: "pylib \<Rightarrow> str \<Rightarrow> str" where
  "strip L s = rev (dropWhile (isspace L) (rev (dropWhile (isspace L) s)))"

definition rstrip_slash :: "str \<Rightarrow> str" where
  "rstrip_slash s = rev (dropWhile (\<lambda>c. c = 47) (rev s))"

definition str_isdigit :: "pylib \<Rightarrow> str \<Rightarrow> bool" where
  "str_isdigit L s = (s \<noteq> [] \<and> list_all (isdigit L) s)"

definition startswith :: "str \<Rightarrow> str \<Rightarrow> bool" where
  "startswith s p = (take (length p) s = p)"

text \<open>
  \<open>int(s)\<close> on the strings the program passes to it: item ids, which are runs of
  \<open>isdigit\<close> or \<open>\d\<close> characters. On these, \<open>int\<close> returns the base-10 value when every
  character is a decimal digit and the string has no more digits than the interpreter's
  limit, and raises \<open>ValueError\<close> otherwise. (The forms with a sign, underscores or
  surrounding whitespace contain a character that is no digit; no caller passes one.)
\<close>

definition is_decimal :: "pylib \<Rightarrow> nat \<Rightarrow> bool" where
  "is_decimal L c = (decimal L c \<noteq> None)"

definition digit_val :: "pylib \<Rightarrow> nat \<Rightarrow> nat" where
  "digit_val L c = (case decimal L c of Some d \<Rightarrow> d | None \<Rightarrow> 0)"

definition too_long :: "pylib \<Rightarrow> str \<Rightarrow> bool" where
  "too_long L s = (0 < int_max_str_digits L \<and> int_max_str_digits L < length s)"

definition py_int :: "pylib \<Rightarrow> str \<Rightarrow> exn + int" where
  "py_int L s =
     (if s \<noteq> [] \<and> list_all (is_decimal L) s \<and> \<not> too_long L s
      then Inr (int (foldl (\<lambda>a c. 10 * a + digit_val L c) 0 s))
      else Inl ValueError)"

text \<open>\<open>xs[:n]\<close>: a negative \<open>n\<close> counts from the end.\<close>

definition slice_to :: "'a list \<Rightarrow> int \<Rightarrow> 'a list" where
  "slice_to xs n = (if 0 \<le> n then take (nat n) xs else take (length xs - nat (- n)) xs)"

text \<open>
  \<open>sorted(xs, key=f, reverse=r)\<close>: the key of every element is computed first, in order,
  so the first key that raises ends the call. The sort is stable, and \<open>reverse=True\<close> keeps
  the original order of elements with equal keys.
\<close>

fun keyed :: "('a \<Rightarrow> exn + 'k) \<Rightarrow> 'a list \<Rightarrow> exn + ('k \<times> 'a) list" where
  "keyed f [] = Inr []"
| "keyed f (x # xs) =
     (case f x of
        Inl e \<Rightarrow> Inl e
      | Inr k \<Rightarrow> (case keyed f xs of Inl e \<Rightarrow> Inl e | Inr r \<Rightarrow> Inr ((k, x) # r)))"

definition stable_sorted :: "bool \<Rightarrow> ('k::linorder \<times> 'a) list \<Rightarrow> 'a list" where
  "stable_sorted reverse kxs =
     map snd (if reverse then rev (sort_key fst (rev kxs)) else sort_key fst kxs)"

definition sorted_by :: "('a \<Rightarrow> exn + 'k::linorder) \<Rightarrow> bool \<Rightarrow> 'a list \<Rightarrow> exn + 'a list" where
  "sorted_by f reverse xs =
     (case keyed f xs of Inl e \<Rightarrow> Inl e | Inr kxs \<Rightarrow> Inr (stable_sorted reverse kxs))"

section \<open>Items and the state store\<close>

record item =
  item_id :: str
  title :: str
  url :: str

text \<open>
  \<open>items_by_id[k] = v\<close> on a dict, whose \<open>values()\<close> come in insertion order: a key already
  present keeps its place and takes the new value. This is \<^const>\<open>AList.update\<close>.
\<close>

definition items_by_id :: "item list \<Rightarrow> (str \<times> item) list" where
  "items_by_id cands = foldl (\<lambda>d it. AList.update (item_id it) it d) [] cands"

text \<open>
  The state is a dict from source names to set objects. The sets are mutated in place
  (\<open>seen.add\<close>) and \<open>state.get(name, set())\<close> may return a set that the dict does not hold,
  so set objects live in a heap and the dict maps a name to an address.
\<close>

type_synonym ref = nat

datatype msg =
    NewItemMsg str str str
  | ParseWarnMsg str str
  | CrawlErrMsg str exn

datatype event =
    Print_fetched str nat
  | Print_msg msg
  | Print_skip msg
  | Print_no_new str
  | Print_sent str str str
  | Post msg bool
  | Write_state

record world =
  heap :: "ref \<Rightarrow> str fset"
  nxt :: ref
  state :: "str \<Rightarrow> ref option"
  attempts :: nat
  out :: "event list"
  disk :: "(str \<Rightarrow> str list option) option"

text \<open>\<open>save_state\<close> (the same in both files): \<open>list(sorted(v, reverse=True))[:3000]\<close>.\<close>

definition compact_ids :: "str fset \<Rightarrow> str list" where
  "compact_ids v = take 3000 (rev (sorted_list_of_set (fset v)))"

definition save_state :: "world \<Rightarrow> world" where
  "save_state w =
     w\<lparr>disk := Some (\<lambda>k. map_option (\<lambda>r. compact_ids (heap w r)) (state w k)),
       out := out w @ [Write_state]\<rparr>"

section \<open>The parsed document\<close>

text \<open>
  \<open>BeautifulSoup(html, "lxml")\<close> is a library call; its result, the tree of tags and text
  nodes, is the input of the extraction. A tag has a name, its attributes in document
  order and its children; the soup itself is a tag whose children are the top-level nodes.
  A text node is a string that \<open>get_text\<close> returns; comments and the like, which it skips,
  are not part of the tree.
\<close>

datatype node = Text str | Tag str "(str \<times> str) list" "node list"

text \<open>All nodes below a tag, in document order (the order of \<open>find_all\<close>).\<close>

fun descendants :: "node \<Rightarrow> node list" where
  "descendants (Text s) = []"
| "descendants (Tag n as cs) = concat (map (\<lambda>c. c # descendants c) cs)"

fun is_tag :: "str \<Rightarrow> node \<Rightarrow> bool" where
  "is_tag nm (Text s) = False"
| "is_tag nm (Tag n as cs) = (n = nm)"

text \<open>\<open>a.get(k)\<close>, with \<open>None\<close> for a missing attribute.\<close>

fun get_attr :: "node \<Rightarrow> str \<Rightarrow> str option" where
  "get_attr (Text s) k = None"
| "get_attr (Tag n as cs) k = map_of as k"

definition find_all :: "str \<Rightarrow> node \<Rightarrow> node list" where
  "find_all nm nd = filter (is_tag nm) (descendants nd)"

text \<open>\<open>soup.find_all("a", href=True)\<close>.\<close>

definition find_all_href :: "node \<Rightarrow> node list" where
  "find_all_href nd =
     filter (\<lambda>a. is_tag (u ''a'') a \<and> get_attr a (u ''href'') \<noteq> None) (descendants nd)"

text \<open>
  \<open>get_text(strip=True)\<close>: the text nodes below the tag, each stripped, the empty ones
  dropped, joined without a separator.
\<close>

fun strings :: "node \<Rightarrow> str list" where
  "strings (Text s) = [s]"
| "strings (Tag n as cs) = concat (map strings cs)"

definition get_text :: "pylib \<Rightarrow> node \<Rightarrow> str" where
  "get_text L nd = concat (filter (\<lambda>s. s \<noteq> []) (map (strip L) (strings nd)))"

text \<open>
  Every \<open>a\<close> tag in document order, each with its \<open>find_parent("tr")\<close>: the nearest
  enclosing \<open>tr\<close>, \<open>None\<close> when there is none.
\<close>

fun anchors_in_rows :: "node option \<Rightarrow> node \<Rightarrow> (node \<times> node option) list" where
  "anchors_in_rows p (Text s) = []"
| "anchors_in_rows p (Tag n as cs) =
     concat (map (\<lambda>c. (if is_tag (u ''a'') c then [(c, if n = u ''tr'' then Some (Tag n as cs) else p)] else [])
                       @ anchors_in_rows (if n = u ''tr'' then Some (Tag n as cs) else p) c) cs)"

section \<open>Regular expressions of the source\<close>

text \<open>
  \<open>re.search(r"""['"]([^'"]+)['"]""", s)\<close>, group 1 of the leftmost match: a quote, the
  longest non-empty run without a quote, and a quote after it.
\<close>

definition is_quote :: "nat \<Rightarrow> bool" where
  "is_quote c = (c = 39 \<or> c = 34)"

fun search_quoted :: "str \<Rightarrow> str option" where
  "search_quoted [] = None"
| "search_quoted (c # cs) =
     (if is_quote c \<and> takeWhile (\<lambda>x. \<not> is_quote x) cs \<noteq> []
         \<and> dropWhile (\<lambda>x. \<not> is_quote x) cs \<noteq> []
      then Some (takeWhile (\<lambda>x. \<not> is_quote x) cs)
      else search_quoted cs)"

text \<open>The literal \<open>p\<close> matches at the start of \<open>s\<close>, ignoring case.\<close>

fun ci_prefix :: "pylib \<Rightarrow> str \<Rightarrow> str \<Rightarrow> bool" where
  "ci_prefix L [] s = True"
| "ci_prefix L (p # ps) [] = False"
| "ci_prefix L (p # ps) (c # cs) = (ci_eq L p c \<and> ci_prefix L ps cs)"

text \<open>
  \<open>re.search(r'[?&]Key=(\d+)', s, re.IGNORECASE)\<close> and the same with \<open>num=\<close>: group 1 of
  the leftmost match, where \<open>lit\<close> is \<open>Key=\<close> or \<open>num=\<close>.
\<close>

fun search_param :: "pylib \<Rightarrow> str \<Rightarrow> str \<Rightarrow> str option" where
  "search_param L lit [] = None"
| "search_param L lit (c # cs) =
     (if (c = 63 \<or> c = 38) \<and> ci_prefix L lit cs
         \<and> takeWhile (is_decimal L) (drop (length lit) cs) \<noteq> []
      then Some (takeWhile (is_decimal L) (drop (length lit) cs))
      else search_param L lit cs)"

text \<open>\<open>re.search(re.escape(pre) + r'/(\d+)', s)\<close>, group 1 of the leftmost match.\<close>

fun search_path :: "pylib \<Rightarrow> str \<Rightarrow> str \<Rightarrow> str option" where
  "search_path L pre [] = None"
| "search_path L pre (c # cs) =
     (if startswith (c # cs) (pre @ [47])
         \<and> takeWhile (is_decimal L) (drop (length pre + 1) (c # cs)) \<noteq> []
      then Some (takeWhile (is_decimal L) (drop (length pre + 1) (c # cs)))
      else search_path L pre cs)"

text \<open>
  \<open>re.compile(re.escape(pat) + r"([^&#]+)", re.IGNORECASE).search(s)\<close>, group 1 of the
  leftmost match.
\<close>

fun search_key :: "pylib \<Rightarrow> str \<Rightarrow> str \<Rightarrow> str option" where
  "search_key L pat [] = None"
| "search_key L pat (c # cs) =
     (if ci_prefix L pat (c # cs)
         \<and> takeWhile (\<lambda>x. x \<noteq> 38 \<and> x \<noteq> 35) (drop (length pat) (c # cs)) \<noteq> []
      then Some (takeWhile (\<lambda>x. x \<noteq> 38 \<and> x \<noteq> 35) (drop (length pat) (c # cs)))
      else search_key L pat cs)"

section \<open>The outside world\<close>

text \<open>
  \<open>web x\<close> is \<open>fetch_html(x)\<close> followed by the parse: the final URL and the soup, or the
  exception of a failed request. \<open>configured\<close> says that both \<open>BOT_TOKEN\<close> and \<open>CHAT_ID\<close>
  are set, and \<open>tg_fails k\<close> that the request number \<open>k\<close> to the Telegram API raises.
\<close>

record env =
  web :: "str \<Rightarrow> exn + (str \<times> node)"
  configured :: bool
  tg_fails :: "nat \<Rightarrow> bool"

section \<open>Extraction strategies of \<open>check_pages.py\<close>\<close>

text \<open>
  The end of every strategy:
  \<open>sorted(items_by_id.values(), key=lambda it: int(it.item_id), reverse=True)[:latest_n]\<close>.
\<close>

definition int_key :: "pylib \<Rightarrow> item \<Rightarrow> exn + int" where
  "int_key L it = py_int L (item_id it)"

definition newest_first :: "pylib \<Rightarrow> (str \<times> item) list \<Rightarrow> int \<Rightarrow> exn + item list" where
  "newest_first L d latest_n =
     (case sorted_by (int_key L) True (map snd d) of
        Inl e \<Rightarrow> Inl e
      | Inr items \<Rightarrow> Inr (slice_to items latest_n))"

definition attr_or_empty :: "node \<Rightarrow> str \<Rightarrow> str" where
  "attr_or_empty a k = (case get_attr a k of Some v \<Rightarrow> v | None \<Rightarrow> [])"

text \<open>Lines 113 to 123: the URL of a row found by the first pass.\<close>

definition row_url :: "pylib \<Rightarrow> str \<Rightarrow> str \<Rightarrow> node \<Rightarrow> str" where
  "row_url L target_url final_url a =
     (let href = strip L (attr_or_empty a (u ''href''));
          onclick = strip L (attr_or_empty a (u ''onclick''))
      in if href \<noteq> []
            \<and> href \<notin> set [u ''#'', u ''javascript:void(0);'', u ''javascript:void(0)'']
            \<and> \<not> startswith (lower L href) (u ''javascript:'')
         then urljoin L final_url href
         else (case search_quoted onclick of
                 Some q \<Rightarrow> urljoin L final_url q
               | None \<Rightarrow> target_url))"

text \<open>Lines 96 to 125: one \<open>tr\<close> of the first pass, \<open>None\<close> where the source continues.\<close>

definition row_item :: "pylib \<Rightarrow> str \<Rightarrow> str \<Rightarrow> node \<Rightarrow> item option" where
  "row_item L target_url final_url tr =
     (case find_all (u ''td'') tr of
        [] \<Rightarrow> None
      | td # tds \<Rightarrow>
          let no = get_text L td in
          if \<not> str_isdigit L no then None
          else (case find_all (u ''a'') tr of
                  [] \<Rightarrow> None
                | a # as \<Rightarrow>
                    let t = get_text L a in
                    if t = [] then None
                    else Some \<lparr>item_id = no, title = t,
                               url = row_url L target_url final_url a\<rparr>))"

text \<open>Lines 129 to 147: one \<open>a\<close> of the second pass with its enclosing row.\<close>

definition link_url :: "pylib \<Rightarrow> str \<Rightarrow> str \<Rightarrow> node \<Rightarrow> str" where
  "link_url L target_url final_url a =
     (let href = strip L (attr_or_empty a (u ''href''))
      in if href \<noteq> [] \<and> \<not> startswith (lower L href) (u ''javascript:'')
         then urljoin L final_url href else target_url)"

definition link_item :: "pylib \<Rightarrow> str \<Rightarrow> str \<Rightarrow> node \<times> node option \<Rightarrow> item option" where
  "link_item L target_url final_url ap =
     (let t = get_text L (fst ap) in
      if t = [] then None
      else (case snd ap of
              None \<Rightarrow> None
            | Some tr \<Rightarrow>
                (case find_all (u ''td'') tr of
                   [] \<Rightarrow> None
                 | td # tds \<Rightarrow>
                     let no = get_text L td in
                     if \<not> str_isdigit L no then None
                     else Some \<lparr>item_id = no, title = t,
                                url = link_url L target_url final_url (fst ap)\<rparr>)))"

definition row_candidates :: "pylib \<Rightarrow> str \<Rightarrow> str \<Rightarrow> node \<Rightarrow> item list" where
  "row_candidates L target_url final_url soup =
     List.map_filter (row_item L target_url final_url) (find_all (u ''tr'') soup)"

definition link_candidates :: "pylib \<Rightarrow> str \<Rightarrow> str \<Rightarrow> node \<Rightarrow> item list" where
  "link_candidates L target_url final_url soup =
     List.map_filter (link_item L target_url final_url) (anchors_in_rows None soup)"

definition number_id_dict :: "pylib \<Rightarrow> str \<Rightarrow> str \<Rightarrow> node \<Rightarrow> (str \<times> item) list" where
  "number_id_dict L target_url final_url soup =
     (let d = items_by_id (row_candidates L target_url final_url soup)
      in if d = [] then items_by_id (link_candidates L target_url final_url soup) else d)"

definition parse_html_list_number_id :: "pylib \<Rightarrow> env \<Rightarrow> str \<Rightarrow> int \<Rightarrow> exn + item list" where
  "parse_html_list_number_id L E target_url latest_n =
     (case web E target_url of
        Inl e \<Rightarrow> Inl e
      | Inr (final_url, soup) \<Rightarrow>
          newest_first L (number_id_dict L target_url final_url soup) latest_n)"

text \<open>
  The three link strategies share their loop body: the stripped \<open>href\<close>, a title of at
  least three characters, and an id found in the \<open>href\<close> by the strategy's pattern.
\<close>

definition href_item :: "pylib \<Rightarrow> (str \<Rightarrow> str option) \<Rightarrow> str \<Rightarrow> node \<Rightarrow> item option" where
  "href_item L search final_url a =
     (let href = strip L (attr_or_empty a (u ''href''));
          t = get_text L a
      in if t = [] \<or> length t < 3 then None
         else (case search href of
                 None \<Rightarrow> None
               | Some i \<Rightarrow> Some \<lparr>item_id = i, title = t, url = urljoin L final_url href\<rparr>))"

definition href_candidates :: "pylib \<Rightarrow> (str \<Rightarrow> str option) \<Rightarrow> str \<Rightarrow> node \<Rightarrow> item list" where
  "href_candidates L search final_url soup =
     List.map_filter (href_item L search final_url) (find_all_href soup)"

definition parse_html_link_with_key :: "pylib \<Rightarrow> env \<Rightarrow> str \<Rightarrow> int \<Rightarrow> exn + item list" where
  "parse_html_link_with_key L E target_url latest_n =
     (case web E target_url of
        Inl e \<Rightarrow> Inl e
      | Inr (final_url, soup) \<Rightarrow>
          newest_first L
            (items_by_id (href_candidates L (search_param L (u ''Key='')) final_url soup))
            latest_n)"

definition parse_html_link_with_path_number :: "pylib \<Rightarrow> env \<Rightarrow> str \<Rightarrow> int \<Rightarrow> exn + item list" where
  "parse_html_link_with_path_number L E target_url latest_n =
     (case web E target_url of
        Inl e \<Rightarrow> Inl e
      | Inr (final_url, soup) \<Rightarrow>
          newest_first L
            (items_by_id (href_candidates L
               (search_path L (rstrip_slash (urlpath L target_url))) final_url soup))
            latest_n)"

definition parse_html_link_with_num_param :: "pylib \<Rightarrow> env \<Rightarrow> str \<Rightarrow> int \<Rightarrow> exn + item list" where
  "parse_html_link_with_num_param L E target_url latest_n =
     (case web E target_url of
        Inl e \<Rightarrow> Inl e
      | Inr (final_url, soup) \<Rightarrow>
          newest_first L
            (items_by_id (href_candidates L (search_param L (u ''num='')) final_url soup))
            latest_n)"

text \<open>The dispatch of \<open>run_target\<close> on the target's type.\<close>

definition select_parser :: "pylib \<Rightarrow> env \<Rightarrow> str \<Rightarrow> str \<Rightarrow> int \<Rightarrow> exn + item list" where
  "select_parser L E ttype target_url latest_n =
     (if ttype = u ''html_list_number_id'' then parse_html_list_number_id L E target_url latest_n
      else if ttype = u ''html_link_with_key'' then parse_html_link_with_key L E target_url latest_n
      else if ttype = u ''html_link_with_path_number''
        then parse_html_link_with_path_number L E target_url latest_n
      else if ttype = u ''html_link_with_num_param''
        then parse_html_link_with_num_param L E target_url latest_n
      else Inl ValueError)"

section \<open>The source runner of \<open>check_pages.py\<close>\<close>

text \<open>
  A target of \<open>targets.json\<close>, with \<open>None\<close> for a missing key. A stateful function returns
  the exception it raised, if any, together with the world it leaves behind.
\<close>

record target =
  t_name :: "str option"
  t_url :: "str option"
  t_type :: "str option"
  t_latest_n :: "int option"
  t_key_pattern :: "str option"

definition emit :: "event \<Rightarrow> world \<Rightarrow> world" where
  "emit ev w = w\<lparr>out := out w @ [ev]\<rparr>"

definition telegram_send :: "env \<Rightarrow> msg \<Rightarrow> world \<Rightarrow> exn option \<times> world" where
  "telegram_send E m w =
     (if \<not> configured E then (None, emit (Print_skip m) w)
      else if tg_fails E (attempts w)
        then (Some RequestError, emit (Post m False) (w\<lparr>attempts := Suc (attempts w)\<rparr>))
      else (None, emit (Post m True) (w\<lparr>attempts := Suc (attempts w)\<rparr>)))"

text \<open>\<open>set()\<close>: a new, empty set object.\<close>

definition new_set :: "world \<Rightarrow> ref \<times> world" where
  "new_set w = (nxt w, w\<lparr>heap := (heap w)(nxt w := {||}), nxt := Suc (nxt w)\<rparr>)"

text \<open>\<open>seen.add(i)\<close> on the set object at address \<open>r\<close>.\<close>

definition set_add :: "ref \<Rightarrow> str \<Rightarrow> world \<Rightarrow> world" where
  "set_add r i w = w\<lparr>heap := (heap w)(r := finsert i (heap w r))\<rparr>"

text \<open>
  Lines 276 to 281: the loop over the new items, with \<open>send\<close> for the file's
  \<open>telegram_send\<close>.
\<close>

fun notify :: "(msg \<Rightarrow> world \<Rightarrow> exn option \<times> world) \<Rightarrow> str \<Rightarrow> ref \<Rightarrow> item list \<Rightarrow> world
    \<Rightarrow> exn option \<times> world" where
  "notify send name seen [] w = (None, w)"
| "notify send name seen (it # its) w =
     (case send (NewItemMsg name (title it) (url it)) w of
        (Some e, w1) \<Rightarrow> (Some e, w1)
      | (None, w1) \<Rightarrow>
          notify send name seen its
            (set_add seen (item_id it) (emit (Print_sent name (item_id it) (title it)) w1)))"

text \<open>Lines 268 and 274: the items not seen before, then oldest first.\<close>

definition new_items_of :: "item list \<Rightarrow> str fset \<Rightarrow> item list" where
  "new_items_of items seen = filter (\<lambda>it. item_id it |\<notin>| seen) items"

definition oldest_first :: "pylib \<Rightarrow> item list \<Rightarrow> exn + item list" where
  "oldest_first L new_items = sorted_by (int_key L) False new_items"

definition target_name :: "target \<Rightarrow> str" where
  "target_name t = (case t_name t of Some n \<Rightarrow> n | None \<Rightarrow> u ''unknown'')"

text \<open>
  \<open>target.get("type", "html_list_number_id")\<close> and \<open>int(target.get("latest_n", 30))\<close>.
\<close>

definition target_type :: "target \<Rightarrow> str" where
  "target_type t = (case t_type t of Some ty \<Rightarrow> ty | None \<Rightarrow> u ''html_list_number_id'')"

definition target_limit :: "target \<Rightarrow> int" where
  "target_limit t = (case t_latest_n t of Some n \<Rightarrow> n | None \<Rightarrow> 30)"

definition run_target :: "pylib \<Rightarrow> env \<Rightarrow> target \<Rightarrow> world \<Rightarrow> exn option \<times> world" where
  "run_target L E t w =
     (let name = target_name t in
      case t_url t of
        None \<Rightarrow> (Some KeyError, w)
      | Some target_url \<Rightarrow>
          let ttype = target_type t;
              latest_n = target_limit t;
              (fresh, w0) = new_set w;
              seen = (case state w0 name of Some r \<Rightarrow> r | None \<Rightarrow> fresh)
          in (case select_parser L E ttype target_url latest_n of
               Inl e \<Rightarrow> (Some e, w0)
             | Inr items \<Rightarrow>
                 let w1 = emit (Print_fetched name (length items)) w0 in
                 if items = []
                 then telegram_send E (ParseWarnMsg name target_url)
                        (emit (Print_msg (ParseWarnMsg name target_url)) w1)
                 else
                   let new_items = new_items_of items (heap w1 seen) in
                   if new_items = [] then (None, emit (Print_no_new name) w1)
                   else (case oldest_first L new_items of
                           Inl e \<Rightarrow> (Some e, w1)
                         | Inr ordered \<Rightarrow>
                             (case notify (telegram_send E) name seen ordered w1 of
                                (Some e, w2) \<Rightarrow> (Some e, w2)
                              | (None, w2) \<Rightarrow>
                                  (None, w2\<lparr>state := (state w2)(name := Some seen)\<rparr>)))))"

text \<open>
  \<open>load_state\<close>: one new set object per key of the file; a missing or unreadable file
  (\<open>None\<close>) gives the empty dict.
\<close>

fun load_entries :: "(str \<times> str list) list \<Rightarrow> world \<Rightarrow> world" where
  "load_entries [] w = w"
| "load_entries ((k, v) # kvs) w =
     load_entries kvs
       (w\<lparr>heap := (heap w)(nxt w := fset_of_list v), nxt := Suc (nxt w),
          state := (state w)(k := Some (nxt w))\<rparr>)"

definition load_state :: "(str \<times> str list) list option \<Rightarrow> world \<Rightarrow> world" where
  "load_state file w =
     (case file of
        None \<Rightarrow> w\<lparr>state := Map.empty\<rparr>
      | Some kvs \<Rightarrow> load_entries kvs (w\<lparr>state := Map.empty\<rparr>))"

text \<open>Lines 293 to 299: the loop of \<open>main\<close> with its handler.\<close>

fun run_targets :: "pylib \<Rightarrow> env \<Rightarrow> target list \<Rightarrow> world \<Rightarrow> exn option \<times> world" where
  "run_targets L E [] w = (None, w)"
| "run_targets L E (t # ts) w =
     (case run_target L E t w of
        (None, w1) \<Rightarrow> run_targets L E ts w1
      | (Some e, w1) \<Rightarrow>
          (case telegram_send E (CrawlErrMsg (target_name t) e)
                  (emit (Print_msg (CrawlErrMsg (target_name t) e)) w1) of
             (None, w2) \<Rightarrow> run_targets L E ts w2
           | (Some e', w2) \<Rightarrow> (Some e', w2)))"

definition main :: "pylib \<Rightarrow> env \<Rightarrow> target list \<Rightarrow> (str \<times> str list) list option \<Rightarrow> world
    \<Rightarrow> exn option \<times> world" where
  "main L E targets file w =
     (if targets = [] then (Some RuntimeError, w)
      else (case run_targets L E targets (load_state file w) of
              (Some e, w1) \<Rightarrow> (Some e, w1)
            | (None, w1) \<Rightarrow> (None, save_state w1)))"

definition start :: world where
  "start = \<lparr>heap = (\<lambda>r. {||}), nxt = 0, state = Map.empty, attempts = 0, out = [],
            disk = None\<rparr>"

section \<open>The variant \<open>check_pages.py.py\<close>\<close>

text \<open>
  The second file has one strategy, \<open>parse_html_key_list\<close>, whose ids are arbitrary tokens.
  Its functions that differ from the first file's carry the suffix \<open>_v2\<close>.
\<close>

definition normalize_url :: "pylib \<Rightarrow> str \<Rightarrow> str \<Rightarrow> str" where
  "normalize_url L href base =
     (if startswith href (u ''http://'') \<or> startswith href (u ''https://'') then href
      else if startswith href (u ''/'') then urljoin L base href
      else urljoin L (base @ u ''/'') href)"

definition key_item :: "pylib \<Rightarrow> str \<Rightarrow> str \<Rightarrow> node \<Rightarrow> item option" where
  "key_item L key_pattern base a =
     (let href = attr_or_empty a (u ''href'') in
      case search_key L key_pattern href of
        None \<Rightarrow> None
      | Some g \<Rightarrow>
          let t = get_text L a in
          if t = [] then None
          else Some \<lparr>item_id = strip L g, title = t, url = normalize_url L href base\<rparr>)"

text \<open>
  \<open>sort_key\<close>: \<open>int(it.item_id) if it.item_id.isdigit() else it.item_id\<close>. The keys are
  integers and strings; Python compares two integers or two strings and raises \<open>TypeError\<close>
  on an integer and a string, which a sort of a list holding both has to compare.
\<close>

datatype pykey = KInt int | KStr str

definition id_key :: "pylib \<Rightarrow> str \<Rightarrow> exn + pykey" where
  "id_key L i =
     (if str_isdigit L i
      then (case py_int L i of Inl e \<Rightarrow> Inl e | Inr n \<Rightarrow> Inr (KInt n))
      else Inr (KStr i))"

definition sort_key_of :: "pylib \<Rightarrow> item \<Rightarrow> exn + pykey" where
  "sort_key_of L it = id_key L (item_id it)"

fun int_keys :: "(pykey \<times> 'a) list \<Rightarrow> (int \<times> 'a) list option" where
  "int_keys [] = Some []"
| "int_keys ((KInt n, x) # r) = map_option (\<lambda>r'. (n, x) # r') (int_keys r)"
| "int_keys ((KStr s, x) # r) = None"

fun str_keys :: "(pykey \<times> 'a) list \<Rightarrow> (str \<times> 'a) list option" where
  "str_keys [] = Some []"
| "str_keys ((KStr s, x) # r) = map_option (\<lambda>r'. (s, x) # r') (str_keys r)"
| "str_keys ((KInt n, x) # r) = None"

definition sorted_by_key :: "('a \<Rightarrow> exn + pykey) \<Rightarrow> bool \<Rightarrow> 'a list \<Rightarrow> exn + 'a list" where
  "sorted_by_key f reverse xs =
     (case keyed f xs of
        Inl e \<Rightarrow> Inl e
      | Inr kxs \<Rightarrow>
          (case int_keys kxs of
             Some ik \<Rightarrow> Inr (stable_sorted reverse ik)
           | None \<Rightarrow>
               (case str_keys kxs of
                  Some sk \<Rightarrow> Inr (stable_sorted reverse sk)
                | None \<Rightarrow> Inl TypeError)))"

definition key_candidates :: "pylib \<Rightarrow> str \<Rightarrow> str \<Rightarrow> node \<Rightarrow> item list" where
  "key_candidates L key_pattern base soup =
     List.map_filter (key_item L key_pattern base) (find_all_href soup)"

definition parse_html_key_list :: "pylib \<Rightarrow> env \<Rightarrow> str \<Rightarrow> str \<Rightarrow> int \<Rightarrow> exn + item list" where
  "parse_html_key_list L E target_url key_pattern latest_n =
     (case web E target_url of
        Inl e \<Rightarrow> Inl e
      | Inr (final_url, soup) \<Rightarrow>
          (case sorted_by_key (sort_key_of L) True
                  (map snd (items_by_id
                     (key_candidates L key_pattern (urlorigin L target_url) soup))) of
             Inl e \<Rightarrow> Inl e
           | Inr items \<Rightarrow> Inr (slice_to items latest_n)))"

definition telegram_send_v2 :: "env \<Rightarrow> msg \<Rightarrow> world \<Rightarrow> exn option \<times> world" where
  "telegram_send_v2 E m w =
     (if \<not> configured E then (Some RuntimeError, w)
      else if tg_fails E (attempts w)
        then (Some RequestError, emit (Post m False) (w\<lparr>attempts := Suc (attempts w)\<rparr>))
      else (None, emit (Post m True) (w\<lparr>attempts := Suc (attempts w)\<rparr>)))"

definition oldest_first_v2 :: "pylib \<Rightarrow> item list \<Rightarrow> exn + item list" where
  "oldest_first_v2 L new_items = sorted_by_key (sort_key_of L) False new_items"

definition run_target_v2 :: "pylib \<Rightarrow> env \<Rightarrow> target \<Rightarrow> world \<Rightarrow> exn option \<times> world" where
  "run_target_v2 L E t w =
     (case t_name t of
        None \<Rightarrow> (Some KeyError, w)
      | Some name \<Rightarrow>
     (case t_url t of
        None \<Rightarrow> (Some KeyError, w)
      | Some target_url \<Rightarrow>
          let ttype = (case t_type t of Some ty \<Rightarrow> ty | None \<Rightarrow> u ''html_key_list'');
              latest_n = (case t_latest_n t of Some n \<Rightarrow> n | None \<Rightarrow> 30);
              (fresh, w0) = new_set w;
              seen = (case state w0 name of Some r \<Rightarrow> r | None \<Rightarrow> fresh)
          in if ttype \<noteq> u ''html_key_list'' then (Some ValueError, w0)
             else
               (case parse_html_key_list L E target_url
                       (case t_key_pattern t of Some kp \<Rightarrow> kp | None \<Rightarrow> u ''view.asp?Key='')
                       latest_n of
                  Inl e \<Rightarrow> (Some e, w0)
                | Inr items \<Rightarrow>
                    let new_items = new_items_of items (heap w0 seen) in
                    if new_items = [] then (None, emit (Print_no_new name) w0)
                    else (case oldest_first_v2 L new_items of
                            Inl e \<Rightarrow> (Some e, w0)
                          | Inr ordered \<Rightarrow>
                              (case notify (telegram_send_v2 E) name seen ordered w0 of
                                 (Some e, w2) \<Rightarrow> (Some e, w2)
                               | (None, w2) \<Rightarrow>
                                   (None, w2\<lparr>state := (state w2)(name := Some seen)\<rparr>))))))"

fun run_targets_v2 :: "pylib \<Rightarrow> env \<Rightarrow> target list \<Rightarrow> world \<Rightarrow> world" where
  "run_targets_v2 L E [] w = w"
| "run_targets_v2 L E (t # ts) w =
     (case run_target_v2 L E t w of
        (None, w1) \<Rightarrow> run_targets_v2 L E ts w1
      | (Some e, w1) \<Rightarrow>
          run_targets_v2 L E ts (emit (Print_msg (CrawlErrMsg (target_name t) e)) w1))"

definition main_v2 :: "pylib \<Rightarrow> env \<Rightarrow> target list \<Rightarrow> (str \<times> str list) list option \<Rightarrow> world
    \<Rightarrow> exn option \<times> world" where
  "main_v2 L E targets file w =
     (if targets = [] then (Some RuntimeError, w)
      else (None, save_state (run_targets_v2 L E targets (load_state file w))))"

section \<open>A concrete library for the examples\<close>

text \<open>
  The Unicode tables restricted to the code points below 256 (Latin-1), where they are:
  whitespace 9 to 13, 28 to 32, 133 and 160; decimal digits 48 to 57; further digits the
  superscripts 178, 179 and 185; lower case of \<open>A\<close> to \<open>Z\<close> and of 192 to 222 without 215.
  The limit of \<open>int\<close> is the default, 4300 digits.
  The URL functions cover the references of the examples: an absolute \<open>http(s)\<close> URL
  replaces the base, an absolute path replaces the base's path, and any other reference
  replaces the last segment of the base's path.
\<close>

definition latin1_lower :: "nat \<Rightarrow> nat" where
  "latin1_lower c =
     (if (65 \<le> c \<and> c \<le> 90) \<or> (192 \<le> c \<and> c \<le> 222 \<and> c \<noteq> 215) then c + 32 else c)"

definition url_scheme :: "str \<Rightarrow> str" where
  "url_scheme s =
     (if startswith s (u ''http://'') then u ''http://''
      else if startswith s (u ''https://'') then u ''https://'' else [])"

definition simple_origin :: "str \<Rightarrow> str" where
  "simple_origin s =
     url_scheme s @ takeWhile (\<lambda>c. c \<noteq> 47) (drop (length (url_scheme s)) s)"

definition simple_path :: "str \<Rightarrow> str" where
  "simple_path s =
     takeWhile (\<lambda>c. c \<noteq> 63 \<and> c \<noteq> 35)
       (dropWhile (\<lambda>c. c \<noteq> 47) (drop (length (url_scheme s)) s))"

definition simple_urljoin :: "str \<Rightarrow> str \<Rightarrow> str" where
  "simple_urljoin b r =
     (if url_scheme r \<noteq> [] then r
      else if startswith r (u ''/'') then simple_origin b @ r
      else simple_origin b @ rev (dropWhile (\<lambda>c. c \<noteq> 47) (rev (simple_path b))) @ r)"

definition latin1 :: pylib where
  "latin1 =
     \<lparr>isspace = (\<lambda>c. (9 \<le> c \<and> c \<le> 13) \<or> (28 \<le> c \<and> c \<le> 32) \<or> c = 133 \<or> c = 160),
      isdigit = (\<lambda>c. (48 \<le> c \<and> c \<le> 57) \<or> c = 178 \<or> c = 179 \<or> c = 185),
      decimal = (\<lambda>c. if 48 \<le> c \<and> c \<le> 57 then Some (c - 48) else None),
      lower = map latin1_lower,
      ci_eq = (\<lambda>p c. latin1_lower p = latin1_lower c),
      urljoin = simple_urljoin,
      urlpath = simple_path,
      urlorigin = simple_origin,
      int_max_str_digits = 4300\<rparr>"

section \<open>Notions used to state the properties\<close>

text \<open>The list that \<open>state.json\<close> holds for a source after a run, if any.\<close>

definition saved_ids :: "world \<Rightarrow> str \<Rightarrow> str list option" where
  "saved_ids w k = (case disk w of None \<Rightarrow> None | Some f \<Rightarrow> f k)"

text \<open>
  The comparison of ids that the specification names, stated on the ids themselves: an id
  is all digits when it is a non-empty run of decimal digits, and then it counts as its
  base-10 value; two all-digits ids compare by value, two other ids as strings, and an
  all-digits id and another one do not compare.
\<close>

definition all_digits :: "pylib \<Rightarrow> str \<Rightarrow> bool" where
  "all_digits L i = (i \<noteq> [] \<and> list_all (\<lambda>c. decimal L c \<noteq> None) i)"

fun numeric_value :: "pylib \<Rightarrow> str \<Rightarrow> nat" where
  "numeric_value L [] = 0"
| "numeric_value L (c # cs) =
     (case decimal L c of None \<Rightarrow> 0 | Some d \<Rightarrow> d * 10 ^ length cs) + numeric_value L cs"

definition spec_id_le :: "pylib \<Rightarrow> str \<Rightarrow> str \<Rightarrow> bool" where
  "spec_id_le L a b =
     (if all_digits L a \<and> all_digits L b then numeric_value L a \<le> numeric_value L b
      else \<not> all_digits L a \<and> \<not> all_digits L b \<and> a \<le> b)"

definition descending_ids :: "pylib \<Rightarrow> str list \<Rightarrow> bool" where
  "descending_ids L ids = sorted_wrt (\<lambda>a b. spec_id_le L b a) ids"

definition ascending_ids :: "pylib \<Rightarrow> str list \<Rightarrow> bool" where
  "ascending_ids L ids = sorted_wrt (\<lambda>a b. spec_id_le L a b) ids"

text \<open>
  A fact of the Unicode tables: a character with Numeric_Type Decimal is a digit for
  \<open>str.isdigit\<close>.
\<close>

definition decimals_are_digits :: "pylib \<Rightarrow> bool" where
  "decimals_are_digits L = (\<forall>c. decimal L c \<noteq> None \<longrightarrow> isdigit L c)"

text \<open>The order of two sort keys of the same kind, as Python compares them.\<close>

fun key_le :: "pykey \<Rightarrow> pykey \<Rightarrow> bool" where
  "key_le (KInt a) (KInt b) = (a \<le> b)"
| "key_le (KStr a) (KStr b) = (a \<le> b)"
| "key_le (KInt a) (KStr b) = False"
| "key_le (KStr a) (KInt b) = False"

text \<open>
  The candidates that a strategy writes into \<open>items_by_id\<close>, in the order of its scan. The
  second pass of \<open>parse_html_list_number_id\<close> runs when the first one left the dict empty.
\<close>

definition number_id_candidates :: "pylib \<Rightarrow> str \<Rightarrow> str \<Rightarrow> node \<Rightarrow> item list" where
  "number_id_candidates L target_url final_url soup =
     (if row_candidates L target_url final_url soup = []
      then link_candidates L target_url final_url soup
      else row_candidates L target_url final_url soup)"

definition page_candidates :: "pylib \<Rightarrow> env \<Rightarrow> str \<Rightarrow> str \<Rightarrow> item list" where
  "page_candidates L E ttype target_url =
     (case web E target_url of
        Inl e \<Rightarrow> []
      | Inr (final_url, soup) \<Rightarrow>
          if ttype = u ''html_list_number_id''
            then number_id_candidates L target_url final_url soup
          else if ttype = u ''html_link_with_key''
            then href_candidates L (search_param L (u ''Key='')) final_url soup
          else if ttype = u ''html_link_with_path_number''
            then href_candidates L (search_path L (rstrip_slash (urlpath L target_url)))
                   final_url soup
          else if ttype = u ''html_link_with_num_param''
            then href_candidates L (search_param L (u ''num='')) final_url soup
          else [])"

definition page_candidates_v2 :: "pylib \<Rightarrow> env \<Rightarrow> str \<Rightarrow> str \<Rightarrow> item list" where
  "page_candidates_v2 L E target_url key_pattern =
     (case web E target_url of
        Inl e \<Rightarrow> []
      | Inr (final_url, soup) \<Rightarrow> key_candidates L key_pattern (urlorigin L target_url) soup)"

text \<open>The last candidate of a scan that has the id \<open>i\<close>.\<close>

definition last_with_id :: "item list \<Rightarrow> str \<Rightarrow> item option" where
  "last_with_id cands i = find (\<lambda>c. item_id c = i) (rev cands)"

text \<open>The candidates of a scan that are the last of their id: the items of the page.\<close>

definition page_items :: "item list \<Rightarrow> item set" where
  "page_items cands = {c \<in> set cands. last_with_id cands (item_id c) = Some c}"

text \<open>
  A result without empty titles and without two items of one id, each item being the last
  candidate of its id.
\<close>

definition clean_result :: "item list \<Rightarrow> item list \<Rightarrow> bool" where
  "clean_result cands items =
     (list_all (\<lambda>it. title it \<noteq> []) items
      \<and> distinct (map item_id items)
      \<and> list_all (\<lambda>it. last_with_id cands (item_id it) = Some it) items)"

definition key_int :: "pykey \<Rightarrow> int" where
  "key_int k = (case k of KInt n \<Rightarrow> n | KStr s \<Rightarrow> 0)"

definition key_str :: "pykey \<Rightarrow> str" where
  "key_str k = (case k of KInt n \<Rightarrow> [] | KStr s \<Rightarrow> s)"


text \<open>No more items than the limit.\<close>

definition within_limit :: "int \<Rightarrow> item list \<Rightarrow> bool" where
  "within_limit n items = (int (length items) \<le> n)"

text \<open>The known set of a source: the set object that the state dict holds for its name.\<close>

definition known :: "world \<Rightarrow> str \<Rightarrow> str fset" where
  "known w name = (case state w name of Some r \<Rightarrow> heap w r | None \<Rightarrow> {||})"

text \<open>Every set object of the state dict has been allocated.\<close>

definition wf_world :: "world \<Rightarrow> bool" where
  "wf_world w = (\<forall>k r. state w k = Some r \<longrightarrow> r < nxt w)"

text \<open>The events of a notification of a new item: its message, sent or skipped, and its log line.\<close>

fun is_new_item_msg :: "msg \<Rightarrow> bool" where
  "is_new_item_msg (NewItemMsg n t x) = True"
| "is_new_item_msg (ParseWarnMsg n x) = False"
| "is_new_item_msg (CrawlErrMsg n e) = False"

fun is_new_item_event :: "event \<Rightarrow> bool" where
  "is_new_item_event (Post m ok) = is_new_item_msg m"
| "is_new_item_event (Print_skip m) = is_new_item_msg m"
| "is_new_item_event (Print_sent n i t) = True"
| "is_new_item_event (Print_msg m) = is_new_item_msg m"
| "is_new_item_event (Print_fetched n k) = False"
| "is_new_item_event (Print_no_new n) = False"
| "is_new_item_event Write_state = False"

text \<open>
  The rest of \<open>run_target\<close> once the parser has returned \<open>items\<close> for the URL \<open>x\<close>: lines
  259 to 283, from the world in which \<open>run_target\<close> was called.
\<close>

definition after_parse :: "pylib \<Rightarrow> env \<Rightarrow> str \<Rightarrow> str \<Rightarrow> item list \<Rightarrow> world \<Rightarrow> exn option \<times> world" where
  "after_parse L E name x items w =
     (let w0 = snd (new_set w);
          seen = (case state w name of Some r \<Rightarrow> r | None \<Rightarrow> nxt w);
          w1 = emit (Print_fetched name (length items)) w0
      in if items = []
         then telegram_send E (ParseWarnMsg name x) (emit (Print_msg (ParseWarnMsg name x)) w1)
         else if new_items_of items (heap w1 seen) = [] then (None, emit (Print_no_new name) w1)
         else (case oldest_first L (new_items_of items (heap w1 seen)) of
                 Inl e \<Rightarrow> (Some e, w1)
               | Inr ordered \<Rightarrow>
                   (case notify (telegram_send E) name seen ordered w1 of
                      (Some e, w2) \<Rightarrow> (Some e, w2)
                    | (None, w2) \<Rightarrow> (None, w2\<lparr>state := (state w2)(name := Some seen)\<rparr>))))"

section \<open>Inputs of the examples\<close>

text \<open>A state file that holds the ids 9 and 10 for the source \<open>s\<close>.\<close>

definition file_9_10 :: "(str \<times> str list) list option" where
  "file_9_10 = Some [(u ''s'', [u ''9'', u ''10''])]"

text \<open>
  A listing at \<open>http://h/list\<close> with three rows: number 10 with the title \<open>A\<close> and the
  link \<open>/a\<close>; number 9 with the title \<open>B\<close>, the link \<open>#\<close> and an \<open>onclick\<close> that holds
  \<open>'view.php?id=9'\<close>; and number 10 again, with the title \<open>C\<close> and the link \<open>/c\<close>.
\<close>

definition td_tag :: "node list \<Rightarrow> node" where
  "td_tag cs = Tag (u ''td'') [] cs"

definition tr_tag :: "node list \<Rightarrow> node" where
  "tr_tag cs = Tag (u ''tr'') [] cs"

definition a_tag :: "(str \<times> str) list \<Rightarrow> node list \<Rightarrow> node" where
  "a_tag as cs = Tag (u ''a'') as cs"

definition soup_of :: "node list \<Rightarrow> node" where
  "soup_of cs = Tag (u ''[document]'') [] cs"

definition url_list :: str where
  "url_list = u ''http://h/list''"

definition page_rows :: node where
  "page_rows = soup_of [Tag (u ''table'') []
     [tr_tag [td_tag [Text (u '' 10 '')], td_tag [a_tag [(u ''href'', u ''/a'')] [Text (u ''A'')]]],
      tr_tag [td_tag [Text (u ''9'')],
          td_tag [a_tag [(u ''href'', u ''#''),
                      (u ''onclick'', u ''location.href='' @ [39] @ u ''view.php?id=9'' @ [39])]
                [Text (u ''B'')]]],
      tr_tag [td_tag [Text (u ''10'')], td_tag [a_tag [(u ''href'', u ''/c'')] [Text (u ''C'')]]]]]"

definition env_rows :: env where
  "env_rows = \<lparr>web = (\<lambda>x. Inr (x, page_rows)), configured = True, tg_fails = (\<lambda>k. False)\<rparr>"

definition item_c :: item where
  "item_c = \<lparr>item_id = u ''10'', title = u ''C'', url = u ''http://h/c''\<rparr>"

definition item_b :: item where
  "item_b = \<lparr>item_id = u ''9'', title = u ''B'', url = u ''http://h/view.php?id=9''\<rparr>"

text \<open>A page of two links for \<open>parse_html_key_list\<close>, with the keys 5 and 47.\<close>

definition page_keys :: node where
  "page_keys = soup_of
     [a_tag [(u ''href'', u ''view.asp?Key=5'')] [Text (u ''Old'')],
      a_tag [(u ''href'', u ''view.asp?Key=47&p=1'')] [Text (u ''Notice Title'')]]"

definition env_keys :: env where
  "env_keys = \<lparr>web = (\<lambda>x. Inr (x, page_keys)), configured = True, tg_fails = (\<lambda>k. False)\<rparr>"

definition item_47 :: item where
  "item_47 = \<lparr>item_id = u ''47'', title = u ''Notice Title'',
               url = u ''http://h/view.asp?Key=47&p=1''\<rparr>"

definition item_5 :: item where
  "item_5 = \<lparr>item_id = u ''5'', title = u ''Old'', url = u ''http://h/view.asp?Key=5''\<rparr>"

text \<open>The source \<open>s\<close> at the listing, with the default type and limit.\<close>

definition target_s :: target where
  "target_s = \<lparr>t_name = Some (u ''s''), t_url = Some url_list, t_type = None,
                t_latest_n = None, t_key_pattern = None\<rparr>"



text \<open>The listing of three rows when the second request to the Telegram API fails.\<close>

definition env_second_fails :: env where
  "env_second_fails =
     \<lparr>web = (\<lambda>x. Inr (x, page_rows)), configured = True, tg_fails = (\<lambda>k. k = 1)\<rparr>"

text \<open>The same listing when every request to the Telegram API fails, and a second source.\<close>

definition env_down :: env where
  "env_down = \<lparr>web = (\<lambda>x. Inr (x, page_rows)), configured = True, tg_fails = (\<lambda>k. True)\<rparr>"

definition target_t :: target where
  "target_t = \<lparr>t_name = Some (u ''t''), t_url = Some url_list, t_type = None,
                t_latest_n = None, t_key_pattern = None\<rparr>"

text \<open>A listing whose only row is numbered with the superscript two, code point 178.\<close>

definition page_superscript :: node where
  "page_superscript = soup_of [Tag (u ''table'') []
     [tr_tag [td_tag [Text [178]], td_tag [a_tag [(u ''href'', u ''/a'')] [Text (u ''A'')]]]]]"

definition env_superscript :: env where
  "env_superscript =
     \<lparr>web = (\<lambda>x. Inr (x, page_superscript)), configured = True, tg_fails = (\<lambda>k. False)\<rparr>"

text \<open>
  A listing whose only row, number 5, has two links: an image link without text, and the
  titled link with \<open>href="javascript:void(0)"\<close> and an \<open>onclick\<close> that holds
  \<open>'http://h/view?id=5'\<close>.
\<close>

definition link_script :: node where
  "link_script =
     a_tag [(u ''href'', u ''javascript:void(0)''),
            (u ''onclick'', u ''go('' @ [39] @ u ''http://h/view?id=5'' @ [39] @ u '')'')]
       [Text (u ''Title'')]"

definition page_two_links :: node where
  "page_two_links = soup_of [Tag (u ''table'') []
     [tr_tag [td_tag [Text (u ''5'')],
              td_tag [a_tag [(u ''href'', u ''/img'')] [Tag (u ''img'') [] []], link_script]]]]"

definition env_two_links :: env where
  "env_two_links =
     \<lparr>web = (\<lambda>x. Inr (x, page_two_links)), configured = True, tg_fails = (\<lambda>k. False)\<rparr>"

text \<open>
  The 3000 ids from 7000 to 9999, the set of these with the id 10000, the state files that
  hold these 3001 ids and the 3000 ids for the source \<open>s\<close>, and a listing whose only row
  is number 10000.
\<close>

definition digits_0_9 :: "nat list" where
  "digits_0_9 = [48, 49, 50, 51, 52, 53, 54, 55, 56, 57]"

definition digits_7_9 :: "nat list" where
  "digits_7_9 = [55, 56, 57]"

definition ids_7000_9999 :: "str list" where
  "ids_7000_9999 =
     map (\<lambda>(a, b, c, d). [a, b, c, d])
       (List.product digits_7_9
          (List.product digits_0_9 (List.product digits_0_9 digits_0_9)))"

definition ids_3001 :: "str fset" where
  "ids_3001 = finsert (u ''10000'') (fset_of_list ids_7000_9999)"

definition file_3001 :: "(str \<times> str list) list option" where
  "file_3001 = Some [(u ''s'', u ''10000'' # ids_7000_9999)]"

definition file_3000 :: "(str \<times> str list) list option" where
  "file_3000 = Some [(u ''s'', ids_7000_9999)]"

definition page_10000 :: node where
  "page_10000 = soup_of [Tag (u ''table'') []
     [tr_tag [td_tag [Text (u ''10000'')],
              td_tag [a_tag [(u ''href'', u ''/n'')] [Text (u ''N'')]]]]]"

definition env_10000 :: env where
  "env_10000 = \<lparr>web = (\<lambda>x. Inr (x, page_10000)), configured = True, tg_fails = (\<lambda>k. False)\<rparr>"

definition item_10000 :: item where
  "item_10000 = \<lparr>item_id = u ''10000'', title = u ''N'', url = u ''http://h/n''\<rparr>"

section \<open>Sorting, slicing and the id dictionary\<close>

lemma keyed_Inr:
  "keyed f xs = Inr kxs \<Longrightarrow>
     kxs = map (\<lambda>x. (projr (f x), x)) xs \<and> (\<forall>x\<in>set xs. f x = Inr (projr (f x)))"
proof (induction xs arbitrary: kxs)
  case Nil
  then show ?case by simp
next
  case (Cons x xs)
  from Cons.prems obtain k r where fx: "f x = Inr k" and r: "keyed f xs = Inr r"
    and kxs: "kxs = (k, x) # r"
    by (auto split: sum.splits)
  from Cons.IH[OF r] fx kxs show ?case by simp
qed

lemma keyed_total:
  "(\<forall>x\<in>set xs. \<exists>k. f x = Inr k) \<Longrightarrow> \<exists>kxs. keyed f xs = Inr kxs"
  by (induction xs) (auto split: sum.splits)

lemma insort_key_pair:
  "insort_key fst (g x, x) (map (\<lambda>y. (g y, y)) ys) = map (\<lambda>y. (g y, y)) (insort_key g x ys)"
  by (induction ys) auto

lemma sort_key_pair:
  "sort_key fst (map (\<lambda>x. (g x, x)) xs) = map (\<lambda>x. (g x, x)) (sort_key g xs)"
  by (induction xs) (auto simp: insort_key_pair)

lemma stable_sorted_pairs:
  "stable_sorted False (map (\<lambda>x. (g x, x)) xs) = sort_key g xs"
  "stable_sorted True (map (\<lambda>x. (g x, x)) xs) = rev (sort_key g (rev xs))"
proof -
  show "stable_sorted False (map (\<lambda>x. (g x, x)) xs) = sort_key g xs"
    by (simp add: stable_sorted_def sort_key_pair comp_def)
  have "sort_key fst (rev (map (\<lambda>x. (g x, x)) xs)) = map (\<lambda>x. (g x, x)) (sort_key g (rev xs))"
    unfolding rev_map by (rule sort_key_pair)
  then show "stable_sorted True (map (\<lambda>x. (g x, x)) xs) = rev (sort_key g (rev xs))"
    by (simp add: stable_sorted_def rev_map comp_def)
qed

lemma sorted_by_Inr:
  assumes "sorted_by f r xs = Inr ys"
  shows "ys = (if r then rev (sort_key (\<lambda>x. projr (f x)) (rev xs)) else sort_key (\<lambda>x. projr (f x)) xs)"
    and "\<forall>x\<in>set xs. f x = Inr (projr (f x))"
proof -
  obtain kxs where k: "keyed f xs = Inr kxs" and y: "ys = stable_sorted r kxs"
    using assms by (auto simp: sorted_by_def split: sum.splits)
  from keyed_Inr[OF k] show "\<forall>x\<in>set xs. f x = Inr (projr (f x))" by blast
  from keyed_Inr[OF k] y show "ys = (if r then rev (sort_key (\<lambda>x. projr (f x)) (rev xs)) else sort_key (\<lambda>x. projr (f x)) xs)"
    by (simp add: stable_sorted_pairs)
qed

lemma slice_to_take: "\<exists>m. slice_to xs n = take m xs"
  by (auto simp: slice_to_def)

lemma slice_to_length: "0 \<le> n \<Longrightarrow> length (slice_to xs n) \<le> nat n"
  by (simp add: slice_to_def)

lemma find_app:
  "find P (xs @ ys) = (case find P xs of Some x \<Rightarrow> Some x | None \<Rightarrow> find P ys)"
  by (induction xs) auto

lemma fold_update_map_of:
  "map_of (foldl (\<lambda>d it. AList.update (item_id it) it d) d cs) k =
     (case find (\<lambda>c. item_id c = k) (rev cs) of Some c \<Rightarrow> Some c | None \<Rightarrow> map_of d k)"
  by (induction cs arbitrary: d) (auto simp: update_conv' find_app split: option.splits)

lemma fold_update_distinct:
  "distinct (map fst d) \<Longrightarrow> distinct (map fst (foldl (\<lambda>d it. AList.update (item_id it) it d) d cs))"
  by (induction cs arbitrary: d) (auto simp: distinct_update)

lemma items_by_id_distinct: "distinct (map fst (items_by_id cs))"
  by (simp add: items_by_id_def fold_update_distinct)

lemma items_by_id_map_of:
  "map_of (items_by_id cs) k = find (\<lambda>c. item_id c = k) (rev cs)"
  by (simp add: items_by_id_def fold_update_map_of split: option.splits)

lemma items_by_id_entry:
  "(k, it) \<in> set (items_by_id cs) \<longleftrightarrow> find (\<lambda>c. item_id c = k) (rev cs) = Some it"
  using items_by_id_distinct[of cs] items_by_id_map_of[of cs k] by (metis map_of_eq_Some_iff)

lemma find_Some_props: "find P xs = Some x \<Longrightarrow> P x \<and> x \<in> set xs"
  by (induction xs) (auto split: if_splits)

lemma items_by_id_values:
  assumes "it \<in> set (map snd (items_by_id cs))"
  shows "it \<in> set cs" and "find (\<lambda>c. item_id c = item_id it) (rev cs) = Some it"
    and "(item_id it, it) \<in> set (items_by_id cs)"
proof -
  obtain k where k: "(k, it) \<in> set (items_by_id cs)" using assms by auto
  then have f: "find (\<lambda>c. item_id c = k) (rev cs) = Some it" by (simp add: items_by_id_entry)
  from find_Some_props[OF f] have e: "item_id it = k" and m: "it \<in> set cs" by auto
  show "it \<in> set cs" by (rule m)
  show "find (\<lambda>c. item_id c = item_id it) (rev cs) = Some it" using f e by simp
  show "(item_id it, it) \<in> set (items_by_id cs)" using k e by simp
qed

lemma items_by_id_ids:
  "map item_id (map snd (items_by_id cs)) = map fst (items_by_id cs)"
proof -
  have "\<forall>p\<in>set (items_by_id cs). item_id (snd p) = fst p"
  proof
    fix p assume p: "p \<in> set (items_by_id cs)"
    then have "(fst p, snd p) \<in> set (items_by_id cs)" by simp
    then have "find (\<lambda>c. item_id c = fst p) (rev cs) = Some (snd p)"
      by (simp only: items_by_id_entry)
    from find_Some_props[OF this] show "item_id (snd p) = fst p" by simp
  qed
  then show ?thesis by (simp add: comp_def)
qed

lemma items_by_id_ids_distinct: "distinct (map item_id (map snd (items_by_id cs)))"
  unfolding items_by_id_ids by (rule items_by_id_distinct)

lemma items_by_id_Nil: "items_by_id cs = [] \<longleftrightarrow> cs = []"
proof
  assume e: "items_by_id cs = []"
  show "cs = []"
  proof (rule ccontr)
    assume "cs \<noteq> []"
    then obtain c where c: "c \<in> set (rev cs)" by (cases cs) auto
    then have "find (\<lambda>x. item_id x = item_id c) (rev cs) \<noteq> None"
      by (auto simp: find_None_iff)
    then show False using items_by_id_map_of[of cs "item_id c"] e by simp
  qed
next
  assume "cs = []" then show "items_by_id cs = []" by (simp add: items_by_id_def)
qed

lemma sorted_wrt_key_rel:
  assumes "sorted (map g ys)" and "\<forall>x\<in>set ys. f x = Inr (g x)"
  shows "sorted_wrt (\<lambda>a b. \<exists>m n. f a = Inr m \<and> f b = Inr n \<and> m \<le> n) ys"
proof -
  have "sorted_wrt (\<lambda>a b. g a \<le> g b) ys" using assms(1) by (simp add: sorted_map)
  then show ?thesis
    by (rule sorted_wrt_mono_rel[rotated]) (use assms(2) in auto)
qed

lemma sorted_by_asc:
  assumes "sorted_by f False xs = Inr ys"
  shows "mset ys = mset xs"
    and "sorted_wrt (\<lambda>a b. \<exists>m n. f a = Inr m \<and> f b = Inr n \<and> m \<le> n) ys"
proof -
  let ?g = "\<lambda>x. projr (f x)"
  have y: "ys = sort_key ?g xs" and k: "\<forall>x\<in>set xs. f x = Inr (?g x)"
    using sorted_by_Inr[OF assms] by simp_all
  show "mset ys = mset xs" by (simp add: y)
  have "sorted (map ?g ys)" by (simp add: y)
  moreover have "\<forall>x\<in>set ys. f x = Inr (?g x)" using k by (simp add: y)
  ultimately show "sorted_wrt (\<lambda>a b. \<exists>m n. f a = Inr m \<and> f b = Inr n \<and> m \<le> n) ys"
    by (rule sorted_wrt_key_rel)
qed

lemma sorted_by_desc:
  assumes "sorted_by f True xs = Inr ys"
  shows "mset ys = mset xs"
    and "sorted_wrt (\<lambda>a b. \<exists>m n. f a = Inr m \<and> f b = Inr n \<and> n \<le> m) ys"
proof -
  let ?g = "\<lambda>x. projr (f x)"
  let ?zs = "sort_key ?g (rev xs)"
  have y: "ys = rev ?zs" and k: "\<forall>x\<in>set xs. f x = Inr (?g x)"
    using sorted_by_Inr[OF assms] by simp_all
  show "mset ys = mset xs" by (simp add: y)
  have "sorted (map ?g ?zs)" by simp
  moreover have "\<forall>x\<in>set ?zs. f x = Inr (?g x)" using k by simp
  ultimately have "sorted_wrt (\<lambda>a b. \<exists>m n. f a = Inr m \<and> f b = Inr n \<and> m \<le> n) ?zs"
    by (rule sorted_wrt_key_rel)
  then have "sorted_wrt (\<lambda>b a. \<exists>m n. f a = Inr m \<and> f b = Inr n \<and> m \<le> n) (rev ?zs)"
    by (simp add: sorted_wrt_rev)
  then show "sorted_wrt (\<lambda>a b. \<exists>m n. f a = Inr m \<and> f b = Inr n \<and> n \<le> m) ys"
    unfolding y by (rule sorted_wrt_mono_rel[rotated]) auto
qed

lemma sorted_by_total:
  assumes "\<forall>x\<in>set xs. \<exists>k. f x = Inr k"
  shows "\<exists>ys. sorted_by f r xs = Inr ys"
  using keyed_total[OF assms] by (auto simp: sorted_by_def)

lemma sorted_by_keys:
  assumes "sorted_by f r xs = Inr ys"
  shows "\<forall>x\<in>set xs. \<exists>k. f x = Inr k"
  using sorted_by_Inr(2)[OF assms] by blast

lemma newest_first_Inr:
  assumes "newest_first L d n = Inr items"
  shows "\<exists>all. sorted_by (int_key L) True (map snd d) = Inr all \<and> items = slice_to all n"
  using assms by (auto simp: newest_first_def split: sum.splits)

lemma sorted_wrt_slice: "sorted_wrt P xs \<Longrightarrow> sorted_wrt P (slice_to xs n)"
  using slice_to_take[of xs n] sorted_wrt_take by metis

lemma set_slice: "set (slice_to xs n) \<subseteq> set xs"
  using slice_to_take[of xs n] set_take_subset by metis

lemma distinct_slice: "distinct (map f xs) \<Longrightarrow> distinct (map f (slice_to xs n))"
  using slice_to_take[of xs n] by (metis distinct_take take_map)

lemma slice_to_all: "slice_to xs (int (length xs)) = xs"
  by (simp add: slice_to_def)

lemma int_keys_Some:
  "int_keys kxs = Some ik \<Longrightarrow>
     ik = map (\<lambda>p. (key_int (fst p), snd p)) kxs \<and> (\<forall>p\<in>set kxs. fst p = KInt (key_int (fst p)))"
  by (induction kxs arbitrary: ik rule: int_keys.induct) (auto simp: key_int_def)

lemma str_keys_Some:
  "str_keys kxs = Some sk \<Longrightarrow>
     sk = map (\<lambda>p. (key_str (fst p), snd p)) kxs \<and> (\<forall>p\<in>set kxs. fst p = KStr (key_str (fst p)))"
  by (induction kxs arbitrary: sk rule: str_keys.induct) (auto simp: key_str_def)

lemma int_keys_total:
  "\<forall>p\<in>set kxs. \<exists>n. fst p = KInt n \<Longrightarrow> \<exists>ik. int_keys kxs = Some ik"
  by (induction kxs rule: int_keys.induct) auto

lemma str_keys_total:
  "\<forall>p\<in>set kxs. \<exists>s. fst p = KStr s \<Longrightarrow> \<exists>sk. str_keys kxs = Some sk"
  by (induction kxs rule: str_keys.induct) auto

text \<open>The keys of a list are all integers, or all strings.\<close>

lemma sorted_by_key_Inr:
  assumes "sorted_by_key f r xs = Inr ys"
  shows "(\<exists>g. (\<forall>x\<in>set xs. f x = Inr (KInt (g x)))
            \<and> ys = (if r then rev (sort_key g (rev xs)) else sort_key g xs))
       \<or> (\<exists>g. (\<forall>x\<in>set xs. f x = Inr (KStr (g x)))
            \<and> ys = (if r then rev (sort_key g (rev xs)) else sort_key g xs))"
proof -
  obtain kxs where k: "keyed f xs = Inr kxs"
    using assms by (auto simp: sorted_by_key_def split: sum.splits)
  have kx: "kxs = map (\<lambda>x. (projr (f x), x)) xs" and fx: "\<forall>x\<in>set xs. f x = Inr (projr (f x))"
    using keyed_Inr[OF k] by auto
  show ?thesis
  proof (cases "int_keys kxs")
    case (Some ik)
    let ?g = "\<lambda>x. key_int (projr (f x))"
    have ik: "ik = map (\<lambda>x. (?g x, x)) xs" and ki: "\<forall>x\<in>set xs. projr (f x) = KInt (?g x)"
      using int_keys_Some[OF Some] by (auto simp: kx comp_def)
    have "ys = stable_sorted r ik" using assms k Some by (simp add: sorted_by_key_def)
    then have y: "ys = (if r then rev (sort_key ?g (rev xs)) else sort_key ?g xs)"
      by (simp add: ik stable_sorted_pairs)
    have a: "\<forall>x\<in>set xs. f x = Inr (KInt (?g x))" using fx ki by metis
    show ?thesis by (rule disjI1, rule exI[where x = ?g]) (use a y in blast)
  next
    case None
    then obtain sk where sk: "str_keys kxs = Some sk"
      using assms k by (auto simp: sorted_by_key_def split: option.splits)
    let ?g = "\<lambda>x. key_str (projr (f x))"
    have s: "sk = map (\<lambda>x. (?g x, x)) xs" and ki: "\<forall>x\<in>set xs. projr (f x) = KStr (?g x)"
      using str_keys_Some[OF sk] by (auto simp: kx comp_def)
    have "ys = stable_sorted r sk" using assms k None sk by (simp add: sorted_by_key_def)
    then have y: "ys = (if r then rev (sort_key ?g (rev xs)) else sort_key ?g xs)"
      by (simp add: s stable_sorted_pairs)
    have a: "\<forall>x\<in>set xs. f x = Inr (KStr (?g x))" using fx ki by metis
    show ?thesis by (rule disjI2, rule exI[where x = ?g]) (use a y in blast)
  qed
qed

lemma sorted_by_key_total_int:
  assumes "\<forall>x\<in>set xs. f x = Inr (KInt (g x))"
  shows "\<exists>ys. sorted_by_key f r xs = Inr ys"
proof -
  obtain kxs where k: "keyed f xs = Inr kxs" using keyed_total[of xs f] assms by blast
  have kx: "kxs = map (\<lambda>x. (projr (f x), x)) xs" using keyed_Inr[OF k] by auto
  have "\<forall>p\<in>set kxs. \<exists>n. fst p = KInt n" using assms by (auto simp: kx)
  from int_keys_total[OF this] obtain ik where "int_keys kxs = Some ik" by blast
  then show ?thesis using k by (simp add: sorted_by_key_def)
qed

lemma sorted_by_key_total_str:
  assumes "\<forall>x\<in>set xs. f x = Inr (KStr (g x))"
  shows "\<exists>ys. sorted_by_key f r xs = Inr ys"
proof -
  obtain kxs where k: "keyed f xs = Inr kxs" using keyed_total[of xs f] assms by blast
  have kx: "kxs = map (\<lambda>x. (projr (f x), x)) xs" using keyed_Inr[OF k] by auto
  have "\<forall>p\<in>set kxs. \<exists>s. fst p = KStr s" using assms by (auto simp: kx)
  from str_keys_total[OF this] obtain sk where "str_keys kxs = Some sk" by blast
  then show ?thesis using k by (auto simp: sorted_by_key_def split: option.splits)
qed

lemma sorted_by_key_subset:
  assumes "sorted_by_key f r xs = Inr ys" and "set zs \<subseteq> set xs"
  shows "\<exists>ws. sorted_by_key f r' zs = Inr ws"
  using sorted_by_key_Inr[OF assms(1)]
proof (elim disjE exE conjE)
  fix g assume "\<forall>x\<in>set xs. f x = Inr (KInt (g x))"
  then have "\<forall>x\<in>set zs. f x = Inr (KInt (g x))" using assms(2) by blast
  then show ?thesis by (rule sorted_by_key_total_int)
next
  fix g assume "\<forall>x\<in>set xs. f x = Inr (KStr (g x))"
  then have "\<forall>x\<in>set zs. f x = Inr (KStr (g x))" using assms(2) by blast
  then show ?thesis by (rule sorted_by_key_total_str)
qed

lemma sorted_wrt_pykey_rel:
  assumes "sorted (map g ys)" and "\<forall>x\<in>set ys. f x = Inr (c (g x))"
    and "\<And>m n. m \<le> n \<Longrightarrow> key_le (c m) (c n)"
  shows "sorted_wrt (\<lambda>a b. \<exists>ka kb. f a = Inr ka \<and> f b = Inr kb \<and> key_le ka kb) ys"
proof -
  have "sorted_wrt (\<lambda>a b. g a \<le> g b) ys" using assms(1) by (simp add: sorted_map)
  then show ?thesis
    by (rule sorted_wrt_mono_rel[rotated]) (use assms(2,3) in auto)
qed

lemma sorted_by_key_mset:
  assumes "sorted_by_key f r xs = Inr ys"
  shows "mset ys = mset xs"
  using sorted_by_key_Inr[OF assms] by (auto split: if_splits)

lemma sorted_by_key_asc:
  assumes "sorted_by_key f False xs = Inr ys"
  shows "sorted_wrt (\<lambda>a b. \<exists>ka kb. f a = Inr ka \<and> f b = Inr kb \<and> key_le ka kb) ys"
  using sorted_by_key_Inr[OF assms]
proof (elim disjE exE conjE)
  fix g :: "'a \<Rightarrow> int" assume k: "\<forall>x\<in>set xs. f x = Inr (KInt (g x))"
    and y: "ys = (if False then rev (sort_key g (rev xs)) else sort_key g xs)"
  have "sorted (map g ys)" using y by simp
  moreover have "\<forall>x\<in>set ys. f x = Inr (KInt (g x))" using k y by simp
  ultimately show ?thesis by (rule sorted_wrt_pykey_rel) simp
next
  fix g :: "'a \<Rightarrow> str" assume k: "\<forall>x\<in>set xs. f x = Inr (KStr (g x))"
    and y: "ys = (if False then rev (sort_key g (rev xs)) else sort_key g xs)"
  have "sorted (map g ys)" using y by simp
  moreover have "\<forall>x\<in>set ys. f x = Inr (KStr (g x))" using k y by simp
  ultimately show ?thesis by (rule sorted_wrt_pykey_rel) simp
qed

lemma sorted_by_key_desc:
  assumes "sorted_by_key f True xs = Inr ys"
  shows "sorted_wrt (\<lambda>a b. \<exists>ka kb. f a = Inr ka \<and> f b = Inr kb \<and> key_le kb ka) ys"
proof -
  let ?R = "\<lambda>a b. \<exists>ka kb. f a = Inr ka \<and> f b = Inr kb \<and> key_le ka kb"
  have "\<exists>zs. ys = rev zs \<and> sorted_wrt ?R zs"
    using sorted_by_key_Inr[OF assms]
  proof (elim disjE exE conjE)
    fix g :: "'a \<Rightarrow> int" assume k: "\<forall>x\<in>set xs. f x = Inr (KInt (g x))"
      and y: "ys = (if True then rev (sort_key g (rev xs)) else sort_key g xs)"
    let ?zs = "sort_key g (rev xs)"
    have "sorted (map g ?zs)" by simp
    moreover have "\<forall>x\<in>set ?zs. f x = Inr (KInt (g x))" using k by simp
    ultimately have "sorted_wrt ?R ?zs" by (rule sorted_wrt_pykey_rel) simp
    then show ?thesis using y by auto
  next
    fix g :: "'a \<Rightarrow> str" assume k: "\<forall>x\<in>set xs. f x = Inr (KStr (g x))"
      and y: "ys = (if True then rev (sort_key g (rev xs)) else sort_key g xs)"
    let ?zs = "sort_key g (rev xs)"
    have "sorted (map g ?zs)" by simp
    moreover have "\<forall>x\<in>set ?zs. f x = Inr (KStr (g x))" using k by simp
    ultimately have "sorted_wrt ?R ?zs" by (rule sorted_wrt_pykey_rel) simp
    then show ?thesis using y by auto
  qed
  then obtain zs where y: "ys = rev zs" and z: "sorted_wrt ?R zs" by blast
  have "sorted_wrt (\<lambda>b a. ?R a b) (rev zs)" using z by (simp add: sorted_wrt_rev)
  then show ?thesis unfolding y by (rule sorted_wrt_mono_rel[rotated]) auto
qed

section \<open>Candidates of the strategies\<close>

lemma set_map_filter: "set (List.map_filter f xs) = {y. \<exists>x\<in>set xs. f x = Some y}"
  by (induction xs) (auto split: option.splits)

lemma row_item_title: "row_item L t f tr = Some it \<Longrightarrow> title it \<noteq> []"
  by (auto simp: row_item_def Let_def split: list.splits if_splits)

lemma link_item_title: "link_item L t f ap = Some it \<Longrightarrow> title it \<noteq> []"
  by (auto simp: link_item_def Let_def split: list.splits if_splits option.splits)

lemma href_item_title: "href_item L sr f a = Some it \<Longrightarrow> title it \<noteq> []"
  by (auto simp: href_item_def Let_def split: if_splits option.splits)

lemma key_item_title: "key_item L kp b a = Some it \<Longrightarrow> title it \<noteq> []"
  by (auto simp: key_item_def Let_def split: if_splits option.splits)

lemma number_id_candidates_title:
  "it \<in> set (number_id_candidates L t f soup) \<Longrightarrow> title it \<noteq> []"
  by (auto simp: number_id_candidates_def row_candidates_def link_candidates_def set_map_filter
      dest: row_item_title link_item_title split: if_splits)

lemma href_candidates_title: "it \<in> set (href_candidates L sr f soup) \<Longrightarrow> title it \<noteq> []"
  by (auto simp: href_candidates_def set_map_filter dest: href_item_title)

lemma key_candidates_title: "it \<in> set (key_candidates L kp b soup) \<Longrightarrow> title it \<noteq> []"
  by (auto simp: key_candidates_def set_map_filter dest: key_item_title)

lemma page_candidates_title: "it \<in> set (page_candidates L E ttype x) \<Longrightarrow> title it \<noteq> []"
  by (auto simp: page_candidates_def
      dest: number_id_candidates_title href_candidates_title split: sum.splits if_splits)

lemma page_candidates_v2_title: "it \<in> set (page_candidates_v2 L E x kp) \<Longrightarrow> title it \<noteq> []"
  by (auto simp: page_candidates_v2_def dest: key_candidates_title split: sum.splits)

lemma number_id_dict_candidates:
  "number_id_dict L t f soup = items_by_id (number_id_candidates L t f soup)"
  by (simp add: number_id_dict_def number_id_candidates_def Let_def items_by_id_Nil)

lemma select_parser_Inr:
  assumes "select_parser L E ttype x n = Inr items"
  shows "newest_first L (items_by_id (page_candidates L E ttype x)) n = Inr items"
proof (cases "web E x")
  case (Inl e)
  then show ?thesis
    using assms
    by (auto simp: select_parser_def parse_html_list_number_id_def parse_html_link_with_key_def
        parse_html_link_with_path_number_def parse_html_link_with_num_param_def
        split: if_splits)
next
  case (Inr p)
  obtain f soup where p: "p = (f, soup)" by (cases p)
  show ?thesis
    using assms Inr p
    by (auto simp: select_parser_def parse_html_list_number_id_def parse_html_link_with_key_def
        parse_html_link_with_path_number_def parse_html_link_with_num_param_def
        page_candidates_def number_id_dict_candidates split: if_splits)
qed

lemma clean_result_dict:
  assumes t: "\<forall>it\<in>set cs. title it \<noteq> []"
    and m: "mset all = mset (map snd (items_by_id cs))"
  shows "clean_result cs (slice_to all n)"
proof -
  have s: "set all = set (map snd (items_by_id cs))" using m by (metis set_mset_mset)
  have "mset (map item_id all) = mset (map item_id (map snd (items_by_id cs)))"
    using m by (metis mset_map)
  then have d: "distinct (map item_id all)"
    using items_by_id_ids_distinct[of cs] by (metis mset_eq_imp_distinct_iff)
  have sub: "set (slice_to all n) \<subseteq> set (map snd (items_by_id cs))"
    using set_slice[of all n] s by simp
  have "list_all (\<lambda>it. title it \<noteq> []) (slice_to all n)"
    unfolding list_all_iff using sub items_by_id_values(1) t by blast
  moreover have "distinct (map item_id (slice_to all n))" using d by (rule distinct_slice)
  moreover have "list_all (\<lambda>it. last_with_id cs (item_id it) = Some it) (slice_to all n)"
    unfolding list_all_iff last_with_id_def using sub items_by_id_values(2) by blast
  ultimately show ?thesis by (simp add: clean_result_def)
qed

lemma select_parser_clean:
  assumes "select_parser L E ttype x n = Inr items"
  shows "clean_result (page_candidates L E ttype x) items"
proof -
  obtain all where a: "sorted_by (int_key L) True (map snd (items_by_id (page_candidates L E ttype x))) = Inr all"
    and i: "items = slice_to all n"
    using newest_first_Inr[OF select_parser_Inr[OF assms]] by blast
  show ?thesis unfolding i
    by (rule clean_result_dict) (use page_candidates_title sorted_by_desc(1)[OF a] in auto)
qed

section \<open>The persisted id lists\<close>

lemma strict_desc_take_drop:
  assumes "sorted_wrt (\<lambda>a b. b < a) (ys :: 'a::linorder list)"
    and "x \<in> set (drop n ys)" and "y \<in> set (take n ys)"
  shows "x < y"
proof -
  have "sorted_wrt (\<lambda>a b. b < a) (take n ys @ drop n ys)" using assms(1) by simp
  then show ?thesis using assms(2,3) unfolding sorted_wrt_append by blast
qed

lemma desc_rev_sorted_list:
  "sorted_wrt (\<lambda>a b. b < a) (rev (sorted_list_of_set (A :: 'a::linorder set)))"
proof -
  have "sorted_wrt (<) (sorted_list_of_set A)" by simp
  then show ?thesis by (simp add: sorted_wrt_rev)
qed

lemma compact_ids_props:
  "length (compact_ids v) = min 3000 (fcard v)"
  "sorted_wrt (\<lambda>a b. b < a) (compact_ids v)"
  "set (compact_ids v) \<subseteq> fset v"
  "x |\<in>| v \<Longrightarrow> x \<notin> set (compact_ids v) \<Longrightarrow> y \<in> set (compact_ids v) \<Longrightarrow> x < y"
proof -
  let ?ys = "rev (sorted_list_of_set (fset v))"
  have d: "sorted_wrt (\<lambda>a b. b < a) ?ys" by (rule desc_rev_sorted_list)
  have s: "set ?ys = fset v" by simp
  show "length (compact_ids v) = min 3000 (fcard v)"
    by (simp add: compact_ids_def fcard.rep_eq)
  show "sorted_wrt (\<lambda>a b. b < a) (compact_ids v)"
    unfolding compact_ids_def using d by (rule sorted_wrt_take)
  show "set (compact_ids v) \<subseteq> fset v"
    unfolding compact_ids_def using s set_take_subset by fastforce
  assume a: "x |\<in>| v" "x \<notin> set (compact_ids v)" "y \<in> set (compact_ids v)"
  have "x \<in> set (take 3000 ?ys @ drop 3000 ?ys)" using a(1) s by simp
  then have "x \<in> set (drop 3000 ?ys)"
    using a(2) unfolding compact_ids_def set_append by blast
  then show "x < y"
    using strict_desc_take_drop[OF d] a(3) unfolding compact_ids_def by blast
qed

lemma saved_ids_save_state:
  "saved_ids (save_state w) k = map_option (\<lambda>r. compact_ids (heap w r)) (state w k)"
  by (simp add: saved_ids_def save_state_def)

text \<open>A set of at most 3000 ids is read back from its saved list as it was.\<close>

lemma compact_ids_roundtrip:
  assumes "fcard v \<le> 3000"
  shows "fset_of_list (compact_ids v) = v"
proof -
  have "length (rev (sorted_list_of_set (fset v))) \<le> 3000"
    using assms by (simp add: fcard.rep_eq)
  then have "compact_ids v = rev (sorted_list_of_set (fset v))"
    by (simp add: compact_ids_def)
  then have "fset (fset_of_list (compact_ids v)) = fset v"
    by (simp add: fset_of_list.rep_eq)
  then show ?thesis by (simp add: fset_inject)
qed

lemma load_9_10_state: "state (load_state file_9_10 start) (u ''s'') = Some 0"
  by (simp add: file_9_10_def load_state_def start_def)

lemma load_9_10_heap: "heap (load_state file_9_10 start) 0 = {|u ''9'', u ''10''|}"
  by (simp add: file_9_10_def load_state_def start_def)

lemma compact_9_10: "compact_ids {|u ''9'', u ''10''|} = [u ''9'', u ''10'']"
  by (simp add: compact_ids_def u_def)

text \<open>
  What \<open>save_state\<close> writes: it sorts the ids of a source as plain strings. The list
  written for a source has at most 3000 entries (all of them when the set has no more),
  is strictly descending in the lexicographic order of strings, holds only ids of the
  source's set, and every id left out is smaller, as a string, than every id kept.
\<close>

lemma save_state_string_order:
  assumes "state w k = Some r"
  shows "\<exists>ids. saved_ids (save_state w) k = Some ids
           \<and> length ids = min 3000 (fcard (heap w r))
           \<and> sorted_wrt (\<lambda>a b. b < a) ids
           \<and> set ids \<subseteq> fset (heap w r)
           \<and> (\<forall>x y. x |\<in>| heap w r \<longrightarrow> x \<notin> set ids \<longrightarrow> y \<in> set ids \<longrightarrow> x < y)"
proof -
  have "saved_ids (save_state w) k = Some (compact_ids (heap w r))"
    using assms by (simp add: saved_ids_save_state)
  then show ?thesis
    using compact_ids_props(1,2,3)[of "heap w r"] compact_ids_props(4)[of _ "heap w r"]
    by blast
qed

text \<open>
  When a set has more than 3000 ids, the id that is least as a string is not saved,
  whatever its value.
\<close>

lemma cap_drops_string_least:
  assumes c: "3000 < fcard v" and x: "x |\<in>| v" and l: "\<forall>y. y |\<in>| v \<longrightarrow> x \<le> y"
  shows "x \<notin> set (compact_ids v)"
proof
  assume s: "x \<in> set (compact_ids v)"
  have "card (set (compact_ids v)) \<le> length (compact_ids v)" by (rule card_length)
  then have "card (set (compact_ids v)) < card (fset v)"
    using c compact_ids_props(1)[of v] by (simp add: fcard.rep_eq)
  then have "set (compact_ids v) \<noteq> fset v" by auto
  then obtain z where z: "z |\<in>| v" "z \<notin> set (compact_ids v)"
    using compact_ids_props(3)[of v] by auto
  from compact_ids_props(4)[OF z s] have "z < x" .
  moreover have "x \<le> z" using l z(1) by blast
  ultimately show False by simp
qed

text \<open>The greatest id of a set, as a string, is saved.\<close>

lemma cap_keeps_string_greatest:
  assumes x: "x |\<in>| v" and g: "\<forall>y. y |\<in>| v \<longrightarrow> y \<le> x"
  shows "x \<in> set (compact_ids v)"
proof (rule ccontr)
  assume n: "x \<notin> set (compact_ids v)"
  have "0 < card (fset v)" using x by (auto simp: card_gt_0_iff)
  then have "length (compact_ids v) \<noteq> 0"
    using compact_ids_props(1)[of v] by (simp add: fcard.rep_eq)
  then obtain y where y: "y \<in> set (compact_ids v)" by (cases "compact_ids v") auto
  from compact_ids_props(4)[OF x n y] have "x < y" .
  moreover have "y \<le> x" using g y compact_ids_props(3)[of v] by blast
  ultimately show False by simp
qed

lemma digits_facts:
  "length digits_0_9 = 10" "distinct digits_0_9" "length digits_7_9 = 3" "distinct digits_7_9"
  "\<And>c. c \<in> set digits_0_9 \<longleftrightarrow> 48 \<le> c \<and> c \<le> 57"
  "\<And>c. c \<in> set digits_7_9 \<longleftrightarrow> 55 \<le> c \<and> c \<le> 57"
  by (simp_all add: digits_0_9_def digits_7_9_def) presburger+

lemma image_of_four:
  "i \<in> (\<lambda>(a, b, c, d). [a, b, c, d]) ` (A \<times> B \<times> C \<times> D)
   \<longleftrightarrow> (\<exists>a b c d. i = [a, b, c, d] \<and> a \<in> A \<and> b \<in> B \<and> c \<in> C \<and> d \<in> D)"
  by force

lemma ids_7000_9999_member:
  "i \<in> set ids_7000_9999 \<longleftrightarrow>
     (\<exists>a b c d. i = [a, b, c, d] \<and> 55 \<le> a \<and> a \<le> 57 \<and> 48 \<le> b \<and> b \<le> 57
        \<and> 48 \<le> c \<and> c \<le> 57 \<and> 48 \<le> d \<and> d \<le> 57)"
  unfolding ids_7000_9999_def set_map set_product image_of_four digits_facts by blast

lemma ids_7000_9999_shape:
  assumes "i \<in> set ids_7000_9999"
  shows "\<exists>a b c d. i = [a, b, c, d] \<and> 55 \<le> a \<and> a \<le> 57 \<and> b \<le> 57 \<and> c \<le> 57 \<and> d \<le> 57"
  using assms unfolding ids_7000_9999_member by blast

lemma ids_7000_9999_length: "length ids_7000_9999 = 3000"
  by (simp add: ids_7000_9999_def digits_facts)

lemma ids_7000_9999_distinct: "distinct ids_7000_9999"
  unfolding ids_7000_9999_def
  by (simp add: distinct_map distinct_product digits_facts inj_on_def)

lemma id_9999_member: "u ''9999'' \<in> set ids_7000_9999"
  unfolding ids_7000_9999_member by (simp add: u_def)

lemma id_10000_fresh: "u ''10000'' \<notin> set ids_7000_9999"
  unfolding ids_7000_9999_member by (simp add: u_def)

lemma ids_3001_card: "fcard ids_3001 = 3001"
proof -
  have "fcard (fset_of_list ids_7000_9999) = 3000"
    using ids_7000_9999_distinct ids_7000_9999_length
    by (simp add: fcard.rep_eq fset_of_list.rep_eq distinct_card)
  moreover have "u ''10000'' |\<notin>| fset_of_list ids_7000_9999"
    using id_10000_fresh by (simp add: fset_of_list_elem)
  ultimately show ?thesis by (simp add: ids_3001_def fcard_finsert_disjoint)
qed

lemma id_10000_least: "\<forall>y. y |\<in>| ids_3001 \<longrightarrow> u ''10000'' \<le> y"
proof (intro allI impI)
  fix y assume "y |\<in>| ids_3001"
  then consider "y = u ''10000''" | "y \<in> set ids_7000_9999"
    by (auto simp: ids_3001_def fset_of_list_elem)
  then show "u ''10000'' \<le> y"
  proof cases
    case 1
    then show ?thesis by simp
  next
    case 2
    from ids_7000_9999_shape[OF this] show ?thesis by (auto simp: u_def)
  qed
qed

lemma id_9999_greatest: "\<forall>y. y |\<in>| ids_3001 \<longrightarrow> y \<le> u ''9999''"
proof (intro allI impI)
  fix y assume "y |\<in>| ids_3001"
  then consider "y = u ''10000''" | "y \<in> set ids_7000_9999"
    by (auto simp: ids_3001_def fset_of_list_elem)
  then show "y \<le> u ''9999''"
  proof cases
    case 1
    then show ?thesis by (simp add: u_def)
  next
    case 2
    from ids_7000_9999_shape[OF this] show ?thesis by (auto simp: u_def)
  qed
qed

lemma id_10000_dropped: "u ''10000'' \<notin> set (compact_ids ids_3001)"
  by (rule cap_drops_string_least)
    (use ids_3001_card id_10000_least in \<open>simp_all add: ids_3001_def\<close>)

lemma id_9999_kept: "u ''9999'' \<in> set (compact_ids ids_3001)"
  by (rule cap_keeps_string_greatest)
    (use id_9999_greatest id_9999_member in \<open>simp_all add: ids_3001_def fset_of_list_elem\<close>)

lemma order_9999_10000:
  "spec_id_le latin1 (u ''9999'') (u ''10000'') \<and> \<not> spec_id_le latin1 (u ''10000'') (u ''9999'')"
  by (simp add: spec_id_le_def all_digits_def latin1_def u_def)

lemma order_9_10:
  "compact_ids {|u ''9'', u ''10''|} = [u ''9'', u ''10'']
   \<and> \<not> descending_ids latin1 [u ''9'', u ''10'']"
proof
  show "compact_ids {|u ''9'', u ''10''|} = [u ''9'', u ''10'']"
    by (simp add: compact_ids_def u_def)
  show "\<not> descending_ids latin1 [u ''9'', u ''10'']"
    by (simp add: descending_ids_def spec_id_le_def all_digits_def latin1_def u_def)
qed

lemma load_3001:
  "state (load_state file_3001 start) (u ''s'') = Some 0"
  "heap (load_state file_3001 start) 0 = ids_3001"
  by (simp_all add: file_3001_def load_state_def start_def ids_3001_def)

text \<open>
  C2 fails on both files: \<open>save_state\<close> sorts the ids as strings, without the numeric key
  of the sorts of lines 149 and 274. With the 3001 ids 7000 to 10000 in the set of the
  source \<open>s\<close>, the list written for \<open>s\<close> keeps 9999 and leaves out 10000, the greatest
  id under the comparison key, because \<open>"10000"\<close> is the least of them as a string.
\<close>

theorem cap_drops_newest_id:
  "saved_ids (save_state (load_state file_3001 start)) (u ''s'') = Some (compact_ids ids_3001)
   \<and> u ''10000'' |\<in>| ids_3001
   \<and> u ''10000'' \<notin> set (compact_ids ids_3001)
   \<and> u ''9999'' \<in> set (compact_ids ids_3001)
   \<and> spec_id_le latin1 (u ''9999'') (u ''10000'')
   \<and> \<not> spec_id_le latin1 (u ''10000'') (u ''9999'')"
proof -
  have "saved_ids (save_state (load_state file_3001 start)) (u ''s'')
      = Some (compact_ids ids_3001)"
    by (simp add: saved_ids_save_state load_3001)
  moreover have "u ''10000'' |\<in>| ids_3001" by (simp add: ids_3001_def)
  ultimately show ?thesis
    using id_10000_dropped id_9999_kept order_9999_10000 by blast
qed

section \<open>Results of the extraction\<close>

lemma parse_html_key_list_Inr:
  assumes "parse_html_key_list L E x kp n = Inr items"
  shows "\<exists>all. sorted_by_key (sort_key_of L) True
                 (map snd (items_by_id (page_candidates_v2 L E x kp))) = Inr all
              \<and> items = slice_to all n"
proof (cases "web E x")
  case (Inl e)
  then show ?thesis using assms by (simp add: parse_html_key_list_def)
next
  case (Inr p)
  obtain f soup where p: "p = (f, soup)" by (cases p)
  show ?thesis
    using assms Inr p
    by (auto simp: parse_html_key_list_def page_candidates_v2_def split: sum.splits)
qed

lemma parse_html_key_list_clean:
  assumes "parse_html_key_list L E x kp n = Inr items"
  shows "clean_result (page_candidates_v2 L E x kp) items"
proof -
  obtain all where a: "sorted_by_key (sort_key_of L) True
      (map snd (items_by_id (page_candidates_v2 L E x kp))) = Inr all"
    and i: "items = slice_to all n"
    using parse_html_key_list_Inr[OF assms] by blast
  show ?thesis unfolding i
    by (rule clean_result_dict) (use page_candidates_v2_title sorted_by_key_mset[OF a] in auto)
qed

text \<open>
  C8. Whatever the page and the strategy, a result of the extraction has no item with an
  empty title and no two items with the same id, and each item is the last candidate of
  the scan that has its id. The first conjunct is about the four strategies of
  \<open>check_pages.py\<close>, the second about \<open>parse_html_key_list\<close> of \<open>check_pages.py.py\<close>.
\<close>

theorem extraction_result_clean:
  "(select_parser L E ttype x n = Inr items
      \<longrightarrow> clean_result (page_candidates L E ttype x) items)
   \<and> (parse_html_key_list L E' x' kp n' = Inr items'
      \<longrightarrow> clean_result (page_candidates_v2 L E' x' kp) items')"
  using select_parser_clean parse_html_key_list_clean by blast

lemma rows_parse:
  "select_parser latin1 env_rows (u ''html_list_number_id'') url_list 30 = Inr [item_c, item_b]"
  by code_simp

lemma keys_parse:
  "parse_html_key_list latin1 env_keys url_list (u ''view.asp?Key='') 30 = Inr [item_47, item_5]"
  by code_simp

text \<open>C8 at the listing of three rows and at the page of two keyed links.\<close>

theorem extraction_result_clean_witness:
  "select_parser latin1 env_rows (u ''html_list_number_id'') url_list 30 = Inr [item_c, item_b]
   \<and> clean_result (page_candidates latin1 env_rows (u ''html_list_number_id'') url_list)
        [item_c, item_b]
   \<and> parse_html_key_list latin1 env_keys url_list (u ''view.asp?Key='') 30
        = Inr [item_47, item_5]
   \<and> clean_result (page_candidates_v2 latin1 env_keys url_list (u ''view.asp?Key=''))
        [item_47, item_5]"
  using extraction_result_clean[of latin1 env_rows "u ''html_list_number_id''" url_list 30
      "[item_c, item_b]" env_keys url_list "u ''view.asp?Key=''" 30 "[item_47, item_5]"]
    rows_parse keys_parse
  by simp

section \<open>The order of the specification and the sort keys\<close>

lemma foldl_numeric:
  "foldl (\<lambda>a c. 10 * a + digit_val L c) a s = a * 10 ^ length s + numeric_value L s"
proof (induction s arbitrary: a)
  case Nil
  then show ?case by simp
next
  case (Cons c cs)
  have "digit_val L c = (case decimal L c of None \<Rightarrow> 0 | Some d \<Rightarrow> d)"
    by (simp add: digit_val_def split: option.splits)
  then show ?case using Cons.IH[of "10 * a + digit_val L c"]
    by (simp add: algebra_simps split: option.splits)
qed

lemma py_int_spec:
  assumes "py_int L s = Inr n"
  shows "all_digits L s" and "n = int (numeric_value L s)"
proof -
  have c: "s \<noteq> [] \<and> list_all (is_decimal L) s"
    and n: "n = int (foldl (\<lambda>a c. 10 * a + digit_val L c) 0 s)"
    using assms by (auto simp: py_int_def split: if_splits)
  show "all_digits L s" using c by (auto simp: all_digits_def is_decimal_def list_all_iff)
  show "n = int (numeric_value L s)" using n by (simp add: foldl_numeric)
qed

lemma int_key_order:
  assumes "int_key L a = Inr m" and "int_key L b = Inr n" and "m \<le> n"
  shows "spec_id_le L (item_id a) (item_id b)"
  using py_int_spec[of L "item_id a" m] py_int_spec[of L "item_id b" n] assms
  by (simp add: int_key_def spec_id_le_def)

lemma isdigit_of_all_digits:
  assumes "decimals_are_digits L" and "all_digits L i"
  shows "str_isdigit L i"
  using assms by (auto simp: decimals_are_digits_def all_digits_def str_isdigit_def list_all_iff)

lemma id_key_order:
  assumes d: "decimals_are_digits L"
    and a: "id_key L a = Inr ka" and b: "id_key L b = Inr kb" and le: "key_le ka kb"
  shows "spec_id_le L a b"
proof (cases "str_isdigit L a")
  case True
  then obtain m where m: "py_int L a = Inr m" "ka = KInt m"
    using a by (auto simp: id_key_def split: sum.splits)
  then obtain n where kb: "kb = KInt n" using le by (cases kb) auto
  then have n: "py_int L b = Inr n"
    using b by (auto simp: id_key_def split: sum.splits if_splits)
  show ?thesis
    using py_int_spec[OF m(1)] py_int_spec[OF n] le m(2) kb by (simp add: spec_id_le_def)
next
  case False
  then have ka: "ka = KStr a" using a by (simp add: id_key_def)
  then obtain s where kb: "kb = KStr s" using le by (cases kb) auto
  have nb: "\<not> str_isdigit L b"
    using b kb by (auto simp: id_key_def split: sum.splits if_splits)
  then have s: "s = b" using b kb by (simp add: id_key_def)
  have "\<not> all_digits L a" "\<not> all_digits L b"
    using False nb isdigit_of_all_digits[OF d] by blast+
  then show ?thesis using le ka kb s by (simp add: spec_id_le_def)
qed

lemma latin1_decimals_are_digits: "decimals_are_digits latin1"
  by (simp add: decimals_are_digits_def latin1_def)

section \<open>The items of a page\<close>

lemma dict_values_page_items: "set (map snd (items_by_id cs)) = page_items cs"
proof (intro set_eqI iffI)
  fix it assume "it \<in> set (map snd (items_by_id cs))"
  from items_by_id_values(1,2)[OF this] show "it \<in> page_items cs"
    by (simp add: page_items_def last_with_id_def)
next
  fix it assume "it \<in> page_items cs"
  then have "find (\<lambda>c. item_id c = item_id it) (rev cs) = Some it"
    by (simp add: page_items_def last_with_id_def)
  then have "(item_id it, it) \<in> set (items_by_id cs)" by (simp only: items_by_id_entry)
  then show "it \<in> set (map snd (items_by_id cs))" by force
qed

lemma slice_to_nonneg: "0 \<le> n \<Longrightarrow> slice_to xs n = take (nat n) xs"
  by (simp add: slice_to_def)

lemma within_limit_take: "0 \<le> n \<Longrightarrow> within_limit n (take (nat n) xs)"
  by (simp add: within_limit_def)

lemma select_parser_top:
  assumes n: "0 \<le> n" and p: "select_parser L E ttype x n = Inr items"
  shows "within_limit n items
         \<and> (\<exists>all. set all = page_items (page_candidates L E ttype x)
                \<and> distinct (map item_id all)
                \<and> descending_ids L (map item_id all)
                \<and> items = take (nat n) all)"
proof -
  let ?d = "items_by_id (page_candidates L E ttype x)"
  obtain all where a: "sorted_by (int_key L) True (map snd ?d) = Inr all"
    and i: "items = slice_to all n"
    using newest_first_Inr[OF select_parser_Inr[OF p]] by blast
  have m: "mset all = mset (map snd ?d)" by (rule sorted_by_desc(1)[OF a])
  have s: "set all = page_items (page_candidates L E ttype x)"
    using m dict_values_page_items by (metis set_mset_mset)
  have "mset (map item_id all) = mset (map item_id (map snd ?d))" using m by (metis mset_map)
  then have di: "distinct (map item_id all)"
    using items_by_id_ids_distinct[of "page_candidates L E ttype x"]
    by (metis mset_eq_imp_distinct_iff)
  have de: "descending_ids L (map item_id all)"
    unfolding descending_ids_def sorted_wrt_map
    by (rule sorted_wrt_mono_rel[rotated, OF sorted_by_desc(2)[OF a]])
      (auto intro: int_key_order)
  have it: "items = take (nat n) all" using i n by (simp add: slice_to_nonneg)
  have "within_limit n items" unfolding it using n by (rule within_limit_take)
  moreover have "\<exists>all. set all = page_items (page_candidates L E ttype x)
                \<and> distinct (map item_id all)
                \<and> descending_ids L (map item_id all)
                \<and> items = take (nat n) all"
    by (rule exI[where x = all]) (use s di de it in blast)
  ultimately show ?thesis by blast
qed

lemma parse_html_key_list_top:
  assumes n: "0 \<le> n" and dd: "decimals_are_digits L"
    and p: "parse_html_key_list L E x kp n = Inr items"
  shows "within_limit n items
         \<and> (\<exists>all. set all = page_items (page_candidates_v2 L E x kp)
                \<and> distinct (map item_id all)
                \<and> descending_ids L (map item_id all)
                \<and> items = take (nat n) all)"
proof -
  let ?d = "items_by_id (page_candidates_v2 L E x kp)"
  obtain all where a: "sorted_by_key (sort_key_of L) True (map snd ?d) = Inr all"
    and i: "items = slice_to all n"
    using parse_html_key_list_Inr[OF p] by blast
  have m: "mset all = mset (map snd ?d)" by (rule sorted_by_key_mset[OF a])
  have s: "set all = page_items (page_candidates_v2 L E x kp)"
    using m dict_values_page_items by (metis set_mset_mset)
  have "mset (map item_id all) = mset (map item_id (map snd ?d))" using m by (metis mset_map)
  then have di: "distinct (map item_id all)"
    using items_by_id_ids_distinct[of "page_candidates_v2 L E x kp"]
    by (metis mset_eq_imp_distinct_iff)
  have de: "descending_ids L (map item_id all)"
    unfolding descending_ids_def sorted_wrt_map
    by (rule sorted_wrt_mono_rel[rotated, OF sorted_by_key_desc[OF a]])
      (auto simp: sort_key_of_def intro: id_key_order[OF dd])
  have it: "items = take (nat n) all" using i n by (simp add: slice_to_nonneg)
  have "within_limit n items" unfolding it using n by (rule within_limit_take)
  moreover have "\<exists>all. set all = page_items (page_candidates_v2 L E x kp)
                \<and> distinct (map item_id all)
                \<and> descending_ids L (map item_id all)
                \<and> items = take (nat n) all"
    by (rule exI[where x = all]) (use s di de it in blast)
  ultimately show ?thesis by blast
qed

text \<open>
  C9. For every page, every strategy and every limit that is not negative, the result has
  at most \<open>limit\<close> items, and it is the first \<open>limit\<close> items of a list \<open>all\<close> that holds
  exactly the items of the page (of each id, the last candidate), once each, in descending
  order of the ids as the specification compares them: the cap is applied after the
  ordering. The first conjunct is about the four strategies of \<open>check_pages.py\<close>, the
  second about \<open>parse_html_key_list\<close> of \<open>check_pages.py.py\<close>, whose sort key tests
  \<open>isdigit\<close>.
\<close>

theorem extraction_top_of_page:
  "(0 \<le> n \<and> select_parser L E ttype x n = Inr items
      \<longrightarrow> within_limit n items
        \<and> (\<exists>all. set all = page_items (page_candidates L E ttype x)
               \<and> distinct (map item_id all)
               \<and> descending_ids L (map item_id all)
               \<and> items = take (nat n) all))
   \<and> (0 \<le> n' \<and> decimals_are_digits L \<and> parse_html_key_list L E' x' kp n' = Inr items'
      \<longrightarrow> within_limit n' items'
        \<and> (\<exists>all. set all = page_items (page_candidates_v2 L E' x' kp)
               \<and> distinct (map item_id all)
               \<and> descending_ids L (map item_id all)
               \<and> items' = take (nat n') all))"
  using select_parser_top parse_html_key_list_top by blast

lemma rows_parse_1:
  "select_parser latin1 env_rows (u ''html_list_number_id'') url_list 1 = Inr [item_c]"
  by code_simp

lemma keys_parse_1:
  "parse_html_key_list latin1 env_keys url_list (u ''view.asp?Key='') 1 = Inr [item_47]"
  by code_simp

text \<open>
  C9 at the limit 1: of the two items of the listing of three rows, 10 and 9, the result
  is the item 10, and of the keyed links 47 and 5 it is 47.
\<close>

theorem extraction_top_of_page_witness:
  "(0::int) \<le> 1
   \<and> select_parser latin1 env_rows (u ''html_list_number_id'') url_list 1 = Inr [item_c]
   \<and> select_parser latin1 env_rows (u ''html_list_number_id'') url_list 30
       = Inr [item_c, item_b]
   \<and> within_limit 1 [item_c]
   \<and> (\<exists>all. set all = page_items (page_candidates latin1 env_rows (u ''html_list_number_id'')
                              url_list)
          \<and> distinct (map item_id all)
          \<and> descending_ids latin1 (map item_id all)
          \<and> [item_c] = take (nat 1) all)
   \<and> decimals_are_digits latin1
   \<and> parse_html_key_list latin1 env_keys url_list (u ''view.asp?Key='') 1 = Inr [item_47]
   \<and> within_limit 1 [item_47]
   \<and> (\<exists>all. set all = page_items (page_candidates_v2 latin1 env_keys url_list
                              (u ''view.asp?Key=''))
          \<and> distinct (map item_id all)
          \<and> descending_ids latin1 (map item_id all)
          \<and> [item_47] = take (nat 1) all)"
  using extraction_top_of_page[of 1 latin1 env_rows "u ''html_list_number_id''" url_list
      "[item_c]" 1 env_keys url_list "u ''view.asp?Key=''" "[item_47]"]
    rows_parse_1 keys_parse_1 rows_parse latin1_decimals_are_digits
  by simp

section \<open>The diff step\<close>

lemma new_items_subset: "set (new_items_of items seen) \<subseteq> set items"
  by (auto simp: new_items_of_def)

lemma select_parser_keys:
  assumes "select_parser L E ttype x n = Inr items"
  shows "\<forall>it\<in>set items. \<exists>k. int_key L it = Inr k"
proof -
  obtain all where a: "sorted_by (int_key L) True
      (map snd (items_by_id (page_candidates L E ttype x))) = Inr all"
    and i: "items = slice_to all n"
    using newest_first_Inr[OF select_parser_Inr[OF assms]] by blast
  have "set all = set (map snd (items_by_id (page_candidates L E ttype x)))"
    using sorted_by_desc(1)[OF a] by (metis set_mset_mset)
  then show ?thesis using sorted_by_keys[OF a] set_slice[of all n] i by blast
qed

lemma oldest_first_diff:
  assumes "\<forall>it\<in>set items. \<exists>k. int_key L it = Inr k"
  shows "\<exists>new. oldest_first L (new_items_of items seen) = Inr new
           \<and> mset new = mset (filter (\<lambda>it. item_id it |\<notin>| seen) items)
           \<and> ascending_ids L (map item_id new)"
proof -
  have "\<forall>it\<in>set (new_items_of items seen). \<exists>k. int_key L it = Inr k"
    using assms new_items_subset by blast
  from sorted_by_total[OF this] obtain new
    where n: "sorted_by (int_key L) False (new_items_of items seen) = Inr new" by blast
  have "ascending_ids L (map item_id new)"
    unfolding ascending_ids_def sorted_wrt_map
    by (rule sorted_wrt_mono_rel[rotated, OF sorted_by_asc(2)[OF n]])
      (auto intro: int_key_order)
  then show ?thesis
    using n sorted_by_asc(1)[OF n] by (simp add: oldest_first_def new_items_of_def)
qed

lemma oldest_first_v2_diff:
  assumes dd: "decimals_are_digits L"
    and p: "parse_html_key_list L E x kp n = Inr items"
  shows "\<exists>new. oldest_first_v2 L (new_items_of items seen) = Inr new
           \<and> mset new = mset (filter (\<lambda>it. item_id it |\<notin>| seen) items)
           \<and> ascending_ids L (map item_id new)"
proof -
  obtain all where a: "sorted_by_key (sort_key_of L) True
      (map snd (items_by_id (page_candidates_v2 L E x kp))) = Inr all"
    and i: "items = slice_to all n"
    using parse_html_key_list_Inr[OF p] by blast
  have "set all = set (map snd (items_by_id (page_candidates_v2 L E x kp)))"
    using sorted_by_key_mset[OF a] by (metis set_mset_mset)
  then have "set (new_items_of items seen)
      \<subseteq> set (map snd (items_by_id (page_candidates_v2 L E x kp)))"
    using new_items_subset[of items seen] set_slice[of all n] i by blast
  from sorted_by_key_subset[OF a this] obtain new
    where n: "sorted_by_key (sort_key_of L) False (new_items_of items seen) = Inr new" by blast
  have "ascending_ids L (map item_id new)"
    unfolding ascending_ids_def sorted_wrt_map
    by (rule sorted_wrt_mono_rel[rotated, OF sorted_by_key_asc[OF n]])
      (auto simp: sort_key_of_def intro: id_key_order[OF dd])
  then show ?thesis
    using n sorted_by_key_mset[OF n] by (simp add: oldest_first_v2_def new_items_of_def)
qed

text \<open>
  C3. For every list of candidates that an extraction returns and every set of known
  ids, the diff step (the filter of line 268 and the sort of line 274) returns, and its
  result holds exactly the candidates whose id is not in the known set, in non-decreasing
  order of the ids as the specification compares them: by value when all digits, else as
  strings. The first conjunct is about \<open>check_pages.py\<close>, the second about
  \<open>check_pages.py.py\<close>, whose sort key tests \<open>isdigit\<close>.
\<close>

theorem diff_new_and_ascending:
  "(select_parser L E ttype x n = Inr items
      \<longrightarrow> (\<exists>new. oldest_first L (new_items_of items seen) = Inr new
             \<and> mset new = mset (filter (\<lambda>it. item_id it |\<notin>| seen) items)
             \<and> ascending_ids L (map item_id new)))
   \<and> (decimals_are_digits L \<and> parse_html_key_list L E' x' kp n' = Inr items'
      \<longrightarrow> (\<exists>new. oldest_first_v2 L (new_items_of items' seen') = Inr new
             \<and> mset new = mset (filter (\<lambda>it. item_id it |\<notin>| seen') items')
             \<and> ascending_ids L (map item_id new)))"
  using oldest_first_diff[OF select_parser_keys] oldest_first_v2_diff by blast

lemma diff_rows_known_7:
  "oldest_first latin1 (new_items_of [item_c, item_b] {|u ''7''|}) = Inr [item_b, item_c]"
  by code_simp

lemma diff_keys_known_5:
  "oldest_first_v2 latin1 (new_items_of [item_47, item_5] {|u ''5''|}) = Inr [item_47]"
  by code_simp

text \<open>
  C3 at the two example pages. With 7 known, the listing's items 10 and 9 are both new and
  come out as 9, 10; with 5 known, of the keyed links 47 and 5 only 47 is new.
\<close>

theorem diff_new_and_ascending_witness:
  "select_parser latin1 env_rows (u ''html_list_number_id'') url_list 30 = Inr [item_c, item_b]
   \<and> oldest_first latin1 (new_items_of [item_c, item_b] {|u ''7''|}) = Inr [item_b, item_c]
   \<and> (\<exists>new. oldest_first latin1 (new_items_of [item_c, item_b] {|u ''7''|}) = Inr new
          \<and> mset new = mset (filter (\<lambda>it. item_id it |\<notin>| {|u ''7''|}) [item_c, item_b])
          \<and> ascending_ids latin1 (map item_id new))
   \<and> decimals_are_digits latin1
   \<and> parse_html_key_list latin1 env_keys url_list (u ''view.asp?Key='') 30
        = Inr [item_47, item_5]
   \<and> oldest_first_v2 latin1 (new_items_of [item_47, item_5] {|u ''5''|}) = Inr [item_47]
   \<and> (\<exists>new. oldest_first_v2 latin1 (new_items_of [item_47, item_5] {|u ''5''|}) = Inr new
          \<and> mset new = mset (filter (\<lambda>it. item_id it |\<notin>| {|u ''5''|}) [item_47, item_5])
          \<and> ascending_ids latin1 (map item_id new))"
  using diff_new_and_ascending[of latin1 env_rows "u ''html_list_number_id''" url_list 30
      "[item_c, item_b]" "{|u ''7''|}" env_keys url_list "u ''view.asp?Key=''" 30
      "[item_47, item_5]" "{|u ''5''|}"]
    rows_parse keys_parse latin1_decimals_are_digits diff_rows_known_7 diff_keys_known_5
  by simp

text \<open>With the id 10 known, the diff of the listing of three rows is the item 9 alone.\<close>

lemma diff_rows_known_10:
  "oldest_first latin1 (new_items_of [item_c, item_b] {|u ''10''|}) = Inr [item_b]"
  by code_simp

section \<open>Runs of one source\<close>

lemma telegram_send_frame:
  assumes "telegram_send E m w = (r, w1)"
  shows "heap w1 = heap w" "state w1 = state w" "nxt w1 = nxt w" "disk w1 = disk w"
    "\<exists>ev. out w1 = out w @ [ev] \<and> ev \<in> {Print_skip m, Post m True, Post m False}"
  using assms by (auto simp: telegram_send_def emit_def split: if_splits)

lemma telegram_send_v2_frame:
  assumes "telegram_send_v2 E m w = (r, w1)"
  shows "heap w1 = heap w" "state w1 = state w" "nxt w1 = nxt w" "disk w1 = disk w"
  using assms by (auto simp: telegram_send_v2_def emit_def split: if_splits)

lemma notify_success:
  assumes fr: "\<And>m w r w1. send m w = (r, w1) \<Longrightarrow> heap w1 = heap w \<and> state w1 = state w \<and> nxt w1 = nxt w"
    and n: "notify send name seen its w = (None, w')"
  shows "heap w' = (heap w)(seen := heap w seen |\<union>| fset_of_list (map item_id its))
         \<and> state w' = state w \<and> nxt w' = nxt w"
  using n
proof (induction its arbitrary: w)
  case Nil
  then show ?case by simp
next
  case (Cons it its)
  obtain r w1 where s: "send (NewItemMsg name (title it) (url it)) w = (r, w1)"
    by (cases "send (NewItemMsg name (title it) (url it)) w")
  from Cons.prems s have r: "r = None" by (cases r) auto
  let ?w2 = "set_add seen (item_id it) (emit (Print_sent name (item_id it) (title it)) w1)"
  have n2: "notify send name seen its ?w2 = (None, w')" using Cons.prems s r by simp
  have f: "heap w1 = heap w" "state w1 = state w" "nxt w1 = nxt w" using fr[OF s] by auto
  have h2: "heap ?w2 = (heap w)(seen := finsert (item_id it) (heap w seen))"
    "state ?w2 = state w" "nxt ?w2 = nxt w"
    using f by (auto simp: set_add_def emit_def)
  from Cons.IH[OF n2] show ?case unfolding h2 by (auto simp: fun_eq_iff)
qed

lemma run_target_parsed:
  assumes "t_url t = Some x"
    and "select_parser L E (target_type t) x (target_limit t) = Inr items"
  shows "run_target L E t w = after_parse L E (target_name t) x items w"
  using assms
  by (simp add: run_target_def after_parse_def Let_def new_set_def
      cong: sum.case_cong prod.case_cong option.case_cong if_cong)

lemma run_target_success_parse:
  assumes "run_target L E t w = (None, w1)"
  shows "\<exists>x items. t_url t = Some x
           \<and> select_parser L E (target_type t) x (target_limit t) = Inr items"
proof (cases "t_url t")
  case None
  then show ?thesis using assms by (simp add: run_target_def)
next
  case (Some x)
  show ?thesis
  proof (cases "select_parser L E (target_type t) x (target_limit t)")
    case (Inl e)
    then show ?thesis using assms Some by (simp add: run_target_def Let_def new_set_def)
  next
    case (Inr items)
    then show ?thesis using Some by blast
  qed
qed

lemma new_set_frame:
  "heap (snd (new_set w)) = (heap w)(nxt w := {||})"
  "state (snd (new_set w)) = state w"
  "nxt (snd (new_set w)) = Suc (nxt w)"
  "out (snd (new_set w)) = out w"
  "disk (snd (new_set w)) = disk w"
  by (simp_all add: new_set_def)

lemma emit_frame:
  "heap (emit ev w) = heap w" "state (emit ev w) = state w" "nxt (emit ev w) = nxt w"
  "out (emit ev w) = out w @ [ev]" "disk (emit ev w) = disk w"
  by (simp_all add: emit_def)

lemma known_seen:
  assumes "wf_world w"
  shows "heap (snd (new_set w)) (case state w name of Some r \<Rightarrow> r | None \<Rightarrow> nxt w)
         = known w name"
proof (cases "state w name")
  case None
  then show ?thesis by (simp add: known_def new_set_frame)
next
  case (Some r)
  then have "r < nxt w" using assms by (auto simp: wf_world_def)
  then show ?thesis using Some by (simp add: known_def new_set_frame)
qed

text \<open>A run in which every extracted id is already known sends nothing about new items.\<close>

lemma after_parse_all_known:
  assumes wf: "wf_world w"
    and kn: "\<forall>it\<in>set items. item_id it |\<in>| known w name"
  shows "\<exists>r w' evs. after_parse L E name x items w = (r, w')
           \<and> out w' = out w @ evs \<and> list_all (\<lambda>ev. \<not> is_new_item_event ev) evs
           \<and> known w' name = known w name \<and> state w' = state w"
proof -
  let ?w0 = "snd (new_set w)"
  let ?seen = "case state w name of Some r \<Rightarrow> r | None \<Rightarrow> nxt w"
  let ?w1 = "emit (Print_fetched name (length items)) ?w0"
  have hs: "heap ?w1 ?seen = known w name" using known_seen[OF wf] by (simp add: emit_frame)
  have nn: "new_items_of items (heap ?w1 ?seen) = []"
    unfolding hs using kn by (auto simp: new_items_of_def filter_empty_conv)
  have k1: "\<And>w'. heap w' = heap ?w0 \<Longrightarrow> state w' = state w \<Longrightarrow> known w' name = known w name"
  proof -
    fix w' :: world assume h: "heap w' = heap ?w0" and s: "state w' = state w"
    show "known w' name = known w name"
    proof (cases "state w name")
      case None
      then show ?thesis using s by (simp add: known_def)
    next
      case (Some r)
      then have "r < nxt w" using wf by (auto simp: wf_world_def)
      then show ?thesis using Some s h by (simp add: known_def new_set_frame)
    qed
  qed
  show ?thesis
  proof (cases "items = []")
    case True
    let ?m = "ParseWarnMsg name x"
    let ?w2 = "emit (Print_msg ?m) ?w1"
    obtain r w' where t: "telegram_send E ?m ?w2 = (r, w')" by (cases "telegram_send E ?m ?w2")
    from telegram_send_frame[OF t] obtain ev where
      f: "heap w' = heap ?w2" "state w' = state ?w2" "out w' = out ?w2 @ [ev]"
      and ev: "ev \<in> {Print_skip ?m, Post ?m True, Post ?m False}" by blast
    have a: "after_parse L E name x items w = (r, w')"
      using True t by (simp add: after_parse_def Let_def)
    have o: "out w' = out w @ [Print_fetched name (length items), Print_msg ?m, ev]"
      using f(3) by (simp add: emit_frame new_set_frame)
    have n: "list_all (\<lambda>ev. \<not> is_new_item_event ev) [Print_fetched name (length items), Print_msg ?m, ev]"
      using ev by auto
    have "known w' name = known w name"
      by (rule k1) (use f in \<open>simp_all add: emit_frame new_set_frame\<close>)
    moreover have "state w' = state w" using f(2) by (simp add: emit_frame new_set_frame)
    ultimately show ?thesis using a o n by blast
  next
    case False
    let ?w' = "emit (Print_no_new name) ?w1"
    have a: "after_parse L E name x items w = (None, ?w')"
      using False nn by (simp add: after_parse_def Let_def)
    have o: "out ?w' = out w @ [Print_fetched name (length items), Print_no_new name]"
      by (simp add: emit_frame new_set_frame)
    have n: "list_all (\<lambda>ev. \<not> is_new_item_event ev) [Print_fetched name (length items), Print_no_new name]"
      by simp
    have "known ?w' name = known w name" by (rule k1) (simp_all add: emit_frame new_set_frame)
    moreover have "state ?w' = state w" by (simp add: emit_frame new_set_frame)
    ultimately show ?thesis using a o n by blast
  qed
qed

text \<open>After a run that returned normally, every extracted id is known.\<close>

lemma after_parse_success:
  assumes wf: "wf_world w"
    and ap: "after_parse L E name x items w = (None, w1)"
  shows "wf_world w1 \<and> (\<forall>it\<in>set items. item_id it |\<in>| known w1 name)"
proof -
  let ?w0 = "snd (new_set w)"
  let ?seen = "case state w name of Some r \<Rightarrow> r | None \<Rightarrow> nxt w"
  let ?w1 = "emit (Print_fetched name (length items)) ?w0"
  have hs: "heap ?w1 ?seen = known w name" using known_seen[OF wf] by (simp add: emit_frame)
  have seen_lt: "?seen < Suc (nxt w)"
  proof (cases "state w name")
    case None
    then show ?thesis by simp
  next
    case (Some r)
    then have "r < nxt w" using wf unfolding wf_world_def by blast
    then show ?thesis using Some by simp
  qed
  have wf_keep: "\<And>w'. state w' = state w \<Longrightarrow> nxt w' = Suc (nxt w) \<Longrightarrow> wf_world w'"
    using wf unfolding wf_world_def by (metis less_Suc_eq)
  show ?thesis
  proof (cases "items = []")
    case True
    let ?m = "ParseWarnMsg name x"
    have t: "telegram_send E ?m (emit (Print_msg ?m) ?w1) = (None, w1)"
      using ap True by (simp add: after_parse_def Let_def)
    have "state w1 = state w" "nxt w1 = Suc (nxt w)"
      using telegram_send_frame(2,3)[OF t] by (simp_all add: emit_frame new_set_frame)
    then show ?thesis using wf_keep True by simp
  next
    case False
    show ?thesis
    proof (cases "new_items_of items (heap ?w1 ?seen) = []")
      case True
      have w1: "w1 = emit (Print_no_new name) ?w1"
        using ap False True by (simp add: after_parse_def Let_def)
      have s: "state w1 = state w" and n: "nxt w1 = Suc (nxt w)" and h: "heap w1 = heap ?w0"
        by (simp_all add: w1 emit_frame new_set_frame)
      have "known w1 name = known w name"
      proof (cases "state w name")
        case None
        then show ?thesis using s by (simp add: known_def)
      next
        case (Some r)
        then have "r < nxt w" using wf by (auto simp: wf_world_def)
        then show ?thesis using Some s h by (simp add: known_def new_set_frame)
      qed
      moreover have "\<forall>it\<in>set items. item_id it |\<in>| known w name"
        using True unfolding hs by (auto simp: new_items_of_def filter_empty_conv)
      ultimately show ?thesis using wf_keep[OF s n] by simp
    next
      case nonempty: False
      let ?new = "new_items_of items (heap ?w1 ?seen)"
      obtain ordered where o: "oldest_first L ?new = Inr ordered"
        using ap False nonempty
        by (cases "oldest_first L ?new") (auto simp: after_parse_def Let_def)
      obtain r w2 where nt: "notify (telegram_send E) name ?seen ordered ?w1 = (r, w2)"
        by (cases "notify (telegram_send E) name ?seen ordered ?w1")
      have r: "r = None" and w1: "w1 = w2\<lparr>state := (state w2)(name := Some ?seen)\<rparr>"
        using ap False nonempty o nt by (cases r; simp add: after_parse_def Let_def)+
      have fr: "\<And>m w r w1. telegram_send E m w = (r, w1)
          \<Longrightarrow> heap w1 = heap w \<and> state w1 = state w \<and> nxt w1 = nxt w"
        using telegram_send_frame by blast
      from notify_success[of "telegram_send E", OF fr nt[unfolded r]]
      have h2: "heap w2 = (heap ?w1)(?seen := heap ?w1 ?seen |\<union>| fset_of_list (map item_id ordered))"
        and s2: "state w2 = state ?w1" and n2: "nxt w2 = nxt ?w1" by auto
      have so: "set ordered = set ?new"
        using sorted_by_asc(1)[OF o[unfolded oldest_first_def]] by (metis set_mset_mset)
      have k: "known w1 name = heap ?w1 ?seen |\<union>| fset_of_list (map item_id ordered)"
        by (simp add: known_def w1 h2)
      have all: "\<forall>it\<in>set items. item_id it |\<in>| known w1 name"
      proof
        fix it assume i: "it \<in> set items"
        show "item_id it |\<in>| known w1 name"
        proof (cases "item_id it |\<in>| heap ?w1 ?seen")
          case True
          then show ?thesis by (simp add: k)
        next
          case False
          then have "it \<in> set ?new" using i by (simp add: new_items_of_def)
          then have "it \<in> set ordered" using so by simp
          then show ?thesis by (auto simp: k fset_of_list_elem)
        qed
      qed
      have "wf_world w1"
        unfolding wf_world_def
      proof (intro allI impI)
        fix k r assume a: "state w1 k = Some r"
        have n1: "nxt w1 = Suc (nxt w)" by (simp add: w1 n2 emit_frame new_set_frame)
        show "r < nxt w1"
        proof (cases "k = name")
          case True
          then have "r = ?seen" using a by (simp add: w1)
          then show ?thesis using seen_lt n1 by simp
        next
          case False
          then have "state w k = Some r" using a by (simp add: w1 s2 emit_frame new_set_frame)
          then have "r < nxt w" using wf by (auto simp: wf_world_def)
          then show ?thesis using n1 by simp
        qed
      qed
      then show ?thesis using all by simp
    qed
  qed
qed

text \<open>
  On the state in memory, a second run finds nothing new. From a state in which every set
  of the state dict has been allocated, let a run of a source return normally. Then a
  second run of the same source on the same page content, from the world the first one
  left, finds every extracted id in the known set, emits no event of a new-item
  notification, and leaves the known set as it was. (Between two runs of the program the
  state goes through \<open>save_state\<close> and \<open>load_state\<close>, which this statement leaves out.)
\<close>

lemma second_run_in_memory:
  assumes "wf_world w" and "run_target L E t w = (None, w1)"
  shows "\<exists>x items r w2 evs.
           t_url t = Some x
           \<and> select_parser L E (target_type t) x (target_limit t) = Inr items
           \<and> new_items_of items (known w1 (target_name t)) = []
           \<and> run_target L E t w1 = (r, w2)
           \<and> out w2 = out w1 @ evs
           \<and> list_all (\<lambda>ev. \<not> is_new_item_event ev) evs
           \<and> known w2 (target_name t) = known w1 (target_name t)"
proof -
  obtain x items where x: "t_url t = Some x"
    and p: "select_parser L E (target_type t) x (target_limit t) = Inr items"
    using run_target_success_parse[OF assms(2)] by blast
  have "after_parse L E (target_name t) x items w = (None, w1)"
    using assms(2) run_target_parsed[OF x p] by simp
  from after_parse_success[OF assms(1) this]
  have wf1: "wf_world w1" and kn: "\<forall>it\<in>set items. item_id it |\<in>| known w1 (target_name t)"
    by auto
  have nn: "new_items_of items (known w1 (target_name t)) = []"
    using kn by (auto simp: new_items_of_def filter_empty_conv)
  from after_parse_all_known[OF wf1 kn, of L E x]
  obtain r w2 evs where "after_parse L E (target_name t) x items w1 = (r, w2)"
    "out w2 = out w1 @ evs" "list_all (\<lambda>ev. \<not> is_new_item_event ev) evs"
    "known w2 (target_name t) = known w1 (target_name t)" by blast
  then show ?thesis using x p nn run_target_parsed[OF x p] by auto
qed





lemma target_s_url: "t_url target_s = Some url_list"
  by (simp add: target_s_def)


section \<open>What the runs keep\<close>

lemma load_entries_wf: "wf_world w \<Longrightarrow> wf_world (load_entries kvs w)"
proof (induction kvs arbitrary: w)
  case Nil
  then show ?case by simp
next
  case (Cons kv kvs)
  obtain k v where kv: "kv = (k, v)" by (cases kv)
  let ?w = "w\<lparr>heap := (heap w)(nxt w := fset_of_list v), nxt := Suc (nxt w),
               state := (state w)(k := Some (nxt w))\<rparr>"
  have "wf_world ?w"
    using Cons.prems unfolding wf_world_def by (auto simp: less_Suc_eq)
  from Cons.IH[OF this] show ?case by (simp add: kv)
qed

lemma load_state_wf: "wf_world (load_state file w)"
proof -
  have e: "wf_world (w\<lparr>state := Map.empty\<rparr>)" by (simp add: wf_world_def)
  show ?thesis
    by (cases "file") (simp_all add: load_state_def e load_entries_wf[OF e])
qed

text \<open>
  The loop over the new items, however it ends: the ids of the items whose notification
  was sent have been added to the set at \<open>seen\<close>, and nothing else has changed in the
  store.
\<close>

lemma notify_added:
  assumes "notify (telegram_send E) name seen its w = (r, w')"
  shows "state w' = state w \<and> nxt w' = nxt w
         \<and> (\<forall>a. a \<noteq> seen \<longrightarrow> heap w' a = heap w a)
         \<and> (\<exists>k. heap w' seen = heap w seen |\<union>| fset_of_list (map item_id (take k its))
                \<and> filter (\<lambda>ev. \<exists>i t. ev = Print_sent name i t) (out w')
                    = filter (\<lambda>ev. \<exists>i t. ev = Print_sent name i t) (out w)
                      @ map (\<lambda>it. Print_sent name (item_id it) (title it)) (take k its))"
  using assms
proof (induction its arbitrary: w)
  case Nil
  then show ?case by simp
next
  case (Cons it its)
  let ?P = "\<lambda>ev. \<exists>i t. ev = Print_sent name i t"
  obtain r1 w1 where s: "telegram_send E (NewItemMsg name (title it) (url it)) w = (r1, w1)"
    by (cases "telegram_send E (NewItemMsg name (title it) (url it)) w")
  have f: "heap w1 = heap w" "state w1 = state w" "nxt w1 = nxt w"
    using telegram_send_frame[OF s] by auto
  have o1: "filter ?P (out w1) = filter ?P (out w)"
    using telegram_send_frame(5)[OF s] by auto
  show ?case
  proof (cases r1)
    case (Some e)
    then have e: "w' = w1" using Cons.prems s by simp
    show ?thesis
      by (intro conjI exI[where x = 0]) (use f o1 e in simp_all)
  next
    case None
    let ?w2 = "set_add seen (item_id it) (emit (Print_sent name (item_id it) (title it)) w1)"
    have n2: "notify (telegram_send E) name seen its ?w2 = (r, w')"
      using Cons.prems s None by simp
    have h2: "heap ?w2 = (heap w)(seen := finsert (item_id it) (heap w seen))"
      "state ?w2 = state w" "nxt ?w2 = nxt w"
      "filter ?P (out ?w2) = filter ?P (out w) @ [Print_sent name (item_id it) (title it)]"
      using f o1 by (auto simp: set_add_def emit_def)
    from Cons.IH[OF n2] obtain k where
      a: "state w' = state ?w2" "nxt w' = nxt ?w2" "\<forall>a. a \<noteq> seen \<longrightarrow> heap w' a = heap ?w2 a"
      and b: "heap w' seen = heap ?w2 seen |\<union>| fset_of_list (map item_id (take k its))"
      and c: "filter ?P (out w') = filter ?P (out ?w2)
                @ map (\<lambda>it. Print_sent name (item_id it) (title it)) (take k its)"
      by blast
    have d: "heap w' seen = heap w seen |\<union>| fset_of_list (map item_id (take (Suc k) (it # its)))"
      "filter ?P (out w') = filter ?P (out w)
            @ map (\<lambda>it. Print_sent name (item_id it) (title it)) (take (Suc k) (it # its))"
      using b c h2 by auto
    have g: "state w' = state w" "nxt w' = nxt w" "\<forall>a. a \<noteq> seen \<longrightarrow> heap w' a = heap w a"
      using a h2 by auto
    show ?thesis
      by (intro conjI exI[where x = "Suc k"]) (use d g in blast)+
  qed
qed

lemma sent_lines_known:
  assumes s: "state v name = Some r0"
    and k: "known w name |\<subseteq>| heap v r0"
    and o: "filter (\<lambda>ev. \<exists>i t. ev = Print_sent name i t) (out v)
            = filter (\<lambda>ev. \<exists>i t. ev = Print_sent name i t) (out w)
              @ map (\<lambda>it. Print_sent name (item_id it) (title it)) sent"
    and h: "\<forall>it\<in>set sent. item_id it |\<in>| heap v r0"
  shows "state v name = Some r0 \<and> known w name |\<subseteq>| known v name
         \<and> (\<forall>i t. Print_sent name i t \<in> set (out v)
               \<longrightarrow> Print_sent name i t \<in> set (out w) \<or> i |\<in>| known v name)"
proof (intro conjI allI impI)
  show "state v name = Some r0" by (rule s)
  show "known w name |\<subseteq>| known v name" using k s by (simp add: known_def)
  fix i t assume a: "Print_sent name i t \<in> set (out v)"
  let ?P = "\<lambda>ev. \<exists>i t. ev = Print_sent name i t"
  have "Print_sent name i t \<in> set (filter ?P (out v))" using a by auto
  then have "Print_sent name i t \<in> set (filter ?P (out w))
      \<or> Print_sent name i t \<in> set (map (\<lambda>it. Print_sent name (item_id it) (title it)) sent)"
    unfolding o by simp
  then show "Print_sent name i t \<in> set (out w) \<or> i |\<in>| known v name"
  proof
    assume "Print_sent name i t \<in> set (filter ?P (out w))"
    then show ?thesis by simp
  next
    assume "Print_sent name i t \<in> set (map (\<lambda>it. Print_sent name (item_id it) (title it)) sent)"
    then obtain it where "it \<in> set sent" "i = item_id it" by auto
    then show ?thesis using h s by (simp add: known_def)
  qed
qed

text \<open>
  For a source that has an entry in the state mapping, the set at \<open>seen\<close> is the
  mapping's own: however the run ends, the entry stays, the known set only grows, and the
  id of every item whose notification was sent is in it.
\<close>

lemma prior_entry_keeps_added_ids:
  assumes wf: "wf_world w" and st: "state w name = Some r0"
    and ap: "after_parse L E name x items w = (r, w')"
  shows "state w' name = Some r0 \<and> known w name |\<subseteq>| known w' name
         \<and> (\<forall>i t. Print_sent name i t \<in> set (out w')
               \<longrightarrow> Print_sent name i t \<in> set (out w) \<or> i |\<in>| known w' name)"
proof -
  let ?P = "\<lambda>ev. \<exists>i t. ev = Print_sent name i t"
  let ?w0 = "snd (new_set w)"
  let ?w1 = "emit (Print_fetched name (length items)) ?w0"
  have lt: "r0 < nxt w" using wf st unfolding wf_world_def by blast
  have h1: "heap ?w1 r0 = known w name" and s1: "state ?w1 = state w"
    using lt st by (simp_all add: known_def emit_frame new_set_frame)
  have o1: "filter ?P (out ?w1) = filter ?P (out w)"
    by (simp add: emit_frame new_set_frame)
  have quiet: "state v name = Some r0 \<and> known w name |\<subseteq>| known v name
         \<and> (\<forall>i t. Print_sent name i t \<in> set (out v)
               \<longrightarrow> Print_sent name i t \<in> set (out w) \<or> i |\<in>| known v name)"
    if "state v = state w" "heap v r0 = known w name" "filter ?P (out v) = filter ?P (out w)"
    for v
    by (rule sent_lines_known[where sent = "[]"]) (use that st in simp_all)
  show ?thesis
  proof (cases "items = []")
    case True
    let ?m = "ParseWarnMsg name x"
    have t: "telegram_send E ?m (emit (Print_msg ?m) ?w1) = (r, w')"
      using ap True by (simp add: after_parse_def Let_def)
    from telegram_send_frame[OF t] obtain ev where
      f: "heap w' = heap (emit (Print_msg ?m) ?w1)" "state w' = state (emit (Print_msg ?m) ?w1)"
        "out w' = out (emit (Print_msg ?m) ?w1) @ [ev]"
      and ev: "ev \<in> {Print_skip ?m, Post ?m True, Post ?m False}" by blast
    show ?thesis
    proof (rule quiet)
      show "state w' = state w" using f(2) by (simp add: emit_frame new_set_frame)
      show "heap w' r0 = known w name" using f(1) h1 by (simp add: emit_frame)
      show "filter ?P (out w') = filter ?P (out w)"
        using f(3) ev by (auto simp: emit_frame new_set_frame)
    qed
  next
    case False
    show ?thesis
    proof (cases "new_items_of items (heap ?w1 r0) = []")
      case True
      have w': "w' = emit (Print_no_new name) ?w1"
        using ap False True st by (simp add: after_parse_def Let_def)
      show ?thesis
        by (rule quiet) (use h1 in \<open>simp_all add: w' emit_frame new_set_frame\<close>)
    next
      case nonempty: False
      let ?new = "new_items_of items (heap ?w1 r0)"
      show ?thesis
      proof (cases "oldest_first L ?new")
        case (Inl e)
        have w': "w' = ?w1"
          using ap False nonempty st Inl by (simp add: after_parse_def Let_def)
        show ?thesis
          by (rule quiet) (use h1 in \<open>simp_all add: w' emit_frame new_set_frame\<close>)
      next
        case (Inr ordered)
        obtain r2 w2 where nt: "notify (telegram_send E) name r0 ordered ?w1 = (r2, w2)"
          by (cases "notify (telegram_send E) name r0 ordered ?w1")
        from notify_added[OF nt] obtain k where
          a: "state w2 = state ?w1"
          and b: "heap w2 r0 = heap ?w1 r0 |\<union>| fset_of_list (map item_id (take k ordered))"
          and c: "filter ?P (out w2) = filter ?P (out ?w1)
                @ map (\<lambda>it. Print_sent name (item_id it) (title it)) (take k ordered)"
          by blast
        have w': "w' = w2 \<or> w' = w2\<lparr>state := (state w2)(name := Some r0)\<rparr>"
          using ap False nonempty st Inr nt
          by (cases r2) (auto simp: after_parse_def Let_def)
        have s': "state w' name = Some r0" using w' a s1 st by auto
        have hw: "heap w' = heap w2" and ow: "out w' = out w2" using w' by auto
        show ?thesis
        proof (rule sent_lines_known[where sent = "take k ordered"])
          show "state w' name = Some r0" by (rule s')
          show "known w name |\<subseteq>| heap w' r0" unfolding hw b h1 by auto
          show "filter ?P (out w') = filter ?P (out w)
              @ map (\<lambda>it. Print_sent name (item_id it) (title it)) (take k ordered)"
            unfolding ow c o1 by simp
          show "\<forall>it\<in>set (take k ordered). item_id it |\<in>| heap w' r0"
            unfolding hw b by (auto simp: fset_of_list_elem)
        qed
      qed
    qed
  qed
qed

text \<open>
  When no send can raise (no credentials, or a Telegram API that answers every request),
  \<open>main\<close> of \<open>check_pages.py\<close> runs every source and saves the state; \<open>main\<close> of
  \<open>check_pages.py.py\<close>, whose handler only prints, always does.
\<close>

lemma telegram_send_quiet:
  "\<not> configured E \<or> (\<forall>k. \<not> tg_fails E k) \<Longrightarrow> fst (telegram_send E m w) = None"
  by (auto simp: telegram_send_def)

lemma run_targets_quiet:
  assumes "\<not> configured E \<or> (\<forall>k. \<not> tg_fails E k)"
  shows "fst (run_targets L E ts w) = None"
proof (induction ts arbitrary: w)
  case Nil
  then show ?case by simp
next
  case (Cons t ts)
  obtain r w1 where rt: "run_target L E t w = (r, w1)" by (cases "run_target L E t w")
  show ?case
  proof (cases r)
    case None
    then show ?thesis using rt Cons.IH by simp
  next
    case (Some e)
    let ?m = "CrawlErrMsg (target_name t) e"
    obtain r2 w2 where ts: "telegram_send E ?m (emit (Print_msg ?m) w1) = (r2, w2)"
      by (cases "telegram_send E ?m (emit (Print_msg ?m) w1)")
    have "r2 = None" using telegram_send_quiet[OF assms, of ?m "emit (Print_msg ?m) w1"] ts by simp
    then show ?thesis using rt Some ts Cons.IH by simp
  qed
qed

lemma main_saves_when_sends_succeed:
  assumes "\<not> configured E \<or> (\<forall>k. \<not> tg_fails E k)" and "targets \<noteq> []"
  shows "fst (main L E targets file w) = None
         \<and> (\<exists>evs. out (snd (main L E targets file w)) = evs @ [Write_state])
         \<and> disk (snd (main L E targets file w)) \<noteq> None"
proof -
  obtain r w1 where rt: "run_targets L E targets (load_state file w) = (r, w1)"
    by (cases "run_targets L E targets (load_state file w)")
  have "r = None" using run_targets_quiet[OF assms(1), of L targets "load_state file w"] rt by simp
  then have "main L E targets file w = (None, save_state w1)"
    using rt assms(2) by (simp add: main_def)
  then show ?thesis by (simp add: save_state_def)
qed

lemma main_v2_saves:
  assumes "targets \<noteq> []"
  shows "fst (main_v2 L E targets file w) = None
         \<and> (\<exists>evs. out (snd (main_v2 L E targets file w)) = evs @ [Write_state])
         \<and> disk (snd (main_v2 L E targets file w)) \<noteq> None"
  using assms by (simp add: main_v2_def save_state_def)

lemma main_no_targets: "main L E [] file w = (Some RuntimeError, w)"
  by (simp add: main_def)

text \<open>
  The pattern of line 121 finds a non-empty run without quotes that stands between two
  quotes.
\<close>

lemma search_quoted_Some:
  "search_quoted s = Some q \<Longrightarrow>
     q \<noteq> [] \<and> (\<forall>c\<in>set q. \<not> is_quote c)
     \<and> (\<exists>pre c1 c2 post. s = pre @ c1 # q @ c2 # post \<and> is_quote c1 \<and> is_quote c2)"
proof (induction s)
  case Nil
  then show ?case by simp
next
  case (Cons c cs)
  let ?t = "takeWhile (\<lambda>x. \<not> is_quote x) cs"
  let ?d = "dropWhile (\<lambda>x. \<not> is_quote x) cs"
  show ?case
  proof (cases "is_quote c \<and> ?t \<noteq> [] \<and> ?d \<noteq> []")
    case True
    then have q: "q = ?t" using Cons.prems by simp
    obtain c2 post where d: "?d = c2 # post" using True by (cases ?d) auto
    have "\<not> \<not> is_quote (hd ?d)" using True hd_dropWhile[of "\<lambda>x. \<not> is_quote x" cs] by blast
    then have c2: "is_quote c2" using d by simp
    have "cs = ?t @ ?d" by simp
    then have e: "c # cs = [] @ c # q @ c2 # post" using d q by simp
    have n: "\<forall>x\<in>set q. \<not> is_quote x" unfolding q using set_takeWhileD by fastforce
    have ne: "q \<noteq> []" using True q by simp
    show ?thesis
      by (intro conjI ne n exI[where x = "[]"] exI[where x = c] exI[where x = c2]
          exI[where x = post]) (use e c2 True in simp_all)
  next
    case False
    then have "search_quoted cs = Some q" using Cons.prems by (simp split: if_splits)
    from Cons.IH[OF this] obtain pre c1 c2 post where
      ne: "q \<noteq> []" and n: "\<forall>c\<in>set q. \<not> is_quote c" and e: "cs = pre @ c1 # q @ c2 # post"
      and q1: "is_quote c1" and q2: "is_quote c2" by blast
    show ?thesis
      by (intro conjI ne n exI[where x = "c # pre"] exI[where x = c1] exI[where x = c2]
          exI[where x = post]) (use e q1 q2 in simp_all)
  qed
qed

text \<open>
  A row taken by the first pass has the URL of the chain of lines 113 to 123, computed on
  the first link of the row.
\<close>

lemma first_pass_url_chain:
  assumes "row_item L target_url final_url row = Some it"
  shows "\<exists>a as. find_all (u ''a'') row = a # as \<and> url it = row_url L target_url final_url a"
  using assms by (auto simp: row_item_def Let_def split: list.splits if_splits)

lemma row_url_chain:
  "row_url L target_url final_url a =
     (if strip L (attr_or_empty a (u ''href'')) \<noteq> []
         \<and> strip L (attr_or_empty a (u ''href'')) \<noteq> u ''#''
         \<and> strip L (attr_or_empty a (u ''href'')) \<noteq> u ''javascript:void(0);''
         \<and> strip L (attr_or_empty a (u ''href'')) \<noteq> u ''javascript:void(0)''
         \<and> \<not> startswith (lower L (strip L (attr_or_empty a (u ''href'')))) (u ''javascript:'')
      then urljoin L final_url (strip L (attr_or_empty a (u ''href'')))
      else if search_quoted (strip L (attr_or_empty a (u ''onclick''))) = None then target_url
      else urljoin L final_url (the (search_quoted (strip L (attr_or_empty a (u ''onclick''))))))"
  by (auto simp: row_url_def Let_def split: option.splits)

text \<open>The ids of the three link strategies are non-empty runs of decimal digits.\<close>

lemma takeWhile_all: "list_all P (takeWhile P xs)"
  by (induction xs) auto

lemma search_param_decimal:
  "search_param L lit s = Some i \<Longrightarrow> i \<noteq> [] \<and> list_all (is_decimal L) i"
  by (induction s) (auto simp: takeWhile_all split: if_splits)

lemma search_path_decimal:
  "search_path L pre s = Some i \<Longrightarrow> i \<noteq> [] \<and> list_all (is_decimal L) i"
  by (induction s) (auto simp: takeWhile_all split: if_splits)

section \<open>Runs that break a stated property\<close>

text \<open>
  C1 fails on \<open>check_pages.py\<close> for a source without an entry in the state mapping. With
  no state file, the source \<open>s\<close> has the new items 9 and 10. The notification of 9 is sent
  and 9 is added to the set that \<open>state.get(name, set())\<close> created, at address 0; the
  notification of 10 raises. The assignment \<open>state[name] = seen\<close> of line 283 is not
  reached, so the state that \<open>main\<close> saves has no list for \<open>s\<close>, and the id 9 is lost.
\<close>

theorem failed_send_loses_added_ids:
  "fst (main latin1 env_second_fails [target_s] None start) = None
   \<and> out (snd (main latin1 env_second_fails [target_s] None start)) =
       [Print_fetched (u ''s'') 2,
        Post (NewItemMsg (u ''s'') (u ''B'') (u ''http://h/view.php?id=9'')) True,
        Print_sent (u ''s'') (u ''9'') (u ''B''),
        Post (NewItemMsg (u ''s'') (u ''C'') (u ''http://h/c'')) False,
        Print_msg (CrawlErrMsg (u ''s'') RequestError),
        Post (CrawlErrMsg (u ''s'') RequestError) True,
        Write_state]
   \<and> u ''9'' |\<in>| heap (snd (main latin1 env_second_fails [target_s] None start)) 0
   \<and> saved_ids (snd (main latin1 env_second_fails [target_s] None start)) (u ''s'') = None"
  by code_simp

text \<open>
  C6 fails on \<open>check_pages.py\<close> when the report of an error cannot be sent. With every
  request to the Telegram API failing, the notification for the first source \<open>s\<close> raises,
  the handler of \<open>main\<close> prints the error and calls \<open>telegram_send\<close>, which raises again,
  outside the \<open>try\<close>: \<open>main\<close> ends with that exception, the second source \<open>t\<close> is not run
  and the state is not saved.
\<close>

theorem failed_report_aborts_main:
  "fst (main latin1 env_down [target_s, target_t] None start) = Some RequestError
   \<and> out (snd (main latin1 env_down [target_s, target_t] None start)) =
       [Print_fetched (u ''s'') 2,
        Post (NewItemMsg (u ''s'') (u ''B'') (u ''http://h/view.php?id=9'')) False,
        Print_msg (CrawlErrMsg (u ''s'') RequestError),
        Post (CrawlErrMsg (u ''s'') RequestError) False]
   \<and> disk (snd (main latin1 env_down [target_s, target_t] None start)) = None"
  by code_simp

text \<open>
  C10 fails on \<open>check_pages.py\<close>: \<open>str.isdigit\<close> accepts characters that \<open>int\<close> rejects.
  A row numbered with the superscript two passes the \<open>isdigit\<close> check of line 102 and
  becomes a candidate, and the sort key \<open>int(it.item_id)\<close> of line 149 raises
  \<open>ValueError\<close>, which ends the run of the source.
\<close>

theorem superscript_number_raises:
  "str_isdigit latin1 [178]
   \<and> map item_id (row_candidates latin1 url_list url_list page_superscript) = [[178]]
   \<and> py_int latin1 [178] = Inl ValueError
   \<and> select_parser latin1 env_superscript (u ''html_list_number_id'') url_list 30
       = Inl ValueError
   \<and> fst (run_target latin1 env_superscript target_s start) = Some ValueError"
  by code_simp

text \<open>
  C5 fails on \<open>check_pages.py\<close> for a row found by the second pass. The first link of the
  row has no text, so the first pass skips the row; the second pass takes the titled link,
  whose \<open>href\<close> is \<open>javascript:void(0)\<close>, and gives the item the listing URL, although the
  \<open>onclick\<close> of the link holds a quoted URL, which the chain of lines 113 to 123
  (\<open>row_url\<close>) resolves.
\<close>

theorem fallback_ignores_onclick:
  "select_parser latin1 env_two_links (u ''html_list_number_id'') url_list 30
     = Inr [\<lparr>item_id = u ''5'', title = u ''Title'', url = url_list\<rparr>]
   \<and> row_url latin1 url_list url_list link_script = u ''http://h/view?id=5''
   \<and> row_url latin1 url_list url_list link_script \<noteq> url_list"
  by code_simp

lemma parse_10000:
  "select_parser latin1 env_10000 (target_type target_s) url_list (target_limit target_s)
   = Inr [item_10000]"
  by code_simp

lemma oldest_first_10000: "oldest_first latin1 [item_10000] = Inr [item_10000]"
  by code_simp

lemma item_10000_fields:
  "item_id item_10000 = u ''10000''" "title item_10000 = u ''N''"
  "url item_10000 = u ''http://h/n''"
  by (simp_all add: item_10000_def)

lemma target_s_name: "target_name target_s = u ''s''"
  by (simp add: target_name_def target_s_def)

text \<open>
  A run of the source \<open>s\<close> on the listing of the row 10000, from a state in which \<open>s\<close> has
  a set that does not hold 10000: the item is new, its notification is sent and its id
  added.
\<close>

lemma run_10000:
  assumes st: "state w (u ''s'') = Some r" and nk: "u ''10000'' |\<notin>| heap w r"
    and rn: "r \<noteq> nxt w"
  shows "fst (run_target latin1 env_10000 target_s w) = None"
    and "out (snd (run_target latin1 env_10000 target_s w))
         = out w @ [Print_fetched (u ''s'') 1,
                    Post (NewItemMsg (u ''s'') (u ''N'') (u ''http://h/n'')) True,
                    Print_sent (u ''s'') (u ''10000'') (u ''N'')]"
    and "state (snd (run_target latin1 env_10000 target_s w)) = state w"
    and "heap (snd (run_target latin1 env_10000 target_s w)) r
         = finsert (u ''10000'') (heap w r)"
proof -
  have n: "new_items_of [item_10000] (heap w r) = [item_10000]"
    using nk by (simp add: new_items_of_def item_10000_fields)
  have s: "(state w)(u ''s'' := Some r) = state w" using st by (simp add: fun_upd_idem)
  have run: "run_target latin1 env_10000 target_s w
      = after_parse latin1 env_10000 (u ''s'') url_list [item_10000] w"
    using run_target_parsed[OF target_s_url parse_10000, of w] by (simp add: target_s_name)
  have ap: "after_parse latin1 env_10000 (u ''s'') url_list [item_10000] w
      = (None,
         w\<lparr>heap := (heap w)(nxt w := {||}, r := finsert (u ''10000'') (heap w r)),
           nxt := Suc (nxt w),
           attempts := Suc (attempts w),
           out := out w @ [Print_fetched (u ''s'') 1,
                    Post (NewItemMsg (u ''s'') (u ''N'') (u ''http://h/n'')) True,
                    Print_sent (u ''s'') (u ''10000'') (u ''N'')]\<rparr>)"
    using st rn n s
    by (simp add: after_parse_def Let_def new_set_def emit_def oldest_first_10000
        telegram_send_def env_10000_def set_add_def item_10000_fields)
  show "fst (run_target latin1 env_10000 target_s w) = None" by (simp add: run ap)
  show "out (snd (run_target latin1 env_10000 target_s w))
         = out w @ [Print_fetched (u ''s'') 1,
                    Post (NewItemMsg (u ''s'') (u ''N'') (u ''http://h/n'')) True,
                    Print_sent (u ''s'') (u ''10000'') (u ''N'')]" by (simp add: run ap)
  show "state (snd (run_target latin1 env_10000 target_s w)) = state w" by (simp add: run ap)
  show "heap (snd (run_target latin1 env_10000 target_s w)) r
         = finsert (u ''10000'') (heap w r)" by (simp add: run ap)
qed

lemma main_10000:
  assumes "u ''10000'' \<notin> set ids"
  shows "fst (main latin1 env_10000 [target_s] (Some [(u ''s'', ids)]) start) = None"
    and "out (snd (main latin1 env_10000 [target_s] (Some [(u ''s'', ids)]) start))
         = [Print_fetched (u ''s'') 1,
            Post (NewItemMsg (u ''s'') (u ''N'') (u ''http://h/n'')) True,
            Print_sent (u ''s'') (u ''10000'') (u ''N''),
            Write_state]"
    and "disk (snd (main latin1 env_10000 [target_s] (Some [(u ''s'', ids)]) start))
         = Some (map_of [(u ''s'', compact_ids (finsert (u ''10000'') (fset_of_list ids)))])"
proof -
  let ?w = "load_state (Some [(u ''s'', ids)]) start"
  have w: "state ?w = (Map.empty)(u ''s'' := Some 0)" "heap ?w 0 = fset_of_list ids"
    "nxt ?w = 1" "out ?w = []"
    by (simp_all add: load_state_def start_def)
  have st: "state ?w (u ''s'') = Some 0" by (simp add: w)
  have nk: "u ''10000'' |\<notin>| heap ?w 0" using assms by (simp add: w fset_of_list_elem)
  have rn: "(0::nat) \<noteq> nxt ?w" by (simp add: w)
  obtain r w1 where rt: "run_target latin1 env_10000 target_s ?w = (r, w1)"
    by (cases "run_target latin1 env_10000 target_s ?w")
  have r: "r = None" and o: "out w1 = [Print_fetched (u ''s'') 1,
            Post (NewItemMsg (u ''s'') (u ''N'') (u ''http://h/n'')) True,
            Print_sent (u ''s'') (u ''10000'') (u ''N'')]"
    and s1: "state w1 = (Map.empty)(u ''s'' := Some 0)"
    and h1: "heap w1 0 = finsert (u ''10000'') (fset_of_list ids)"
    using run_10000[OF st nk rn] rt by (simp_all add: w)
  have m: "main latin1 env_10000 [target_s] (Some [(u ''s'', ids)]) start = (None, save_state w1)"
    using rt r by (simp add: main_def)
  show "fst (main latin1 env_10000 [target_s] (Some [(u ''s'', ids)]) start) = None"
    by (simp add: m)
  show "out (snd (main latin1 env_10000 [target_s] (Some [(u ''s'', ids)]) start))
         = [Print_fetched (u ''s'') 1,
            Post (NewItemMsg (u ''s'') (u ''N'') (u ''http://h/n'')) True,
            Print_sent (u ''s'') (u ''10000'') (u ''N''),
            Write_state]"
    by (simp add: m save_state_def o)
  show "disk (snd (main latin1 env_10000 [target_s] (Some [(u ''s'', ids)]) start))
         = Some (map_of [(u ''s'', compact_ids (finsert (u ''10000'') (fset_of_list ids)))])"
    by (simp add: m save_state_def s1 h1 fun_eq_iff)
qed

text \<open>
  C7 fails on the state that is persisted between two runs, by the defect of C2. The
  state file holds the 3000 ids 7000 to 9999 for the source \<open>s\<close>, and the listing shows
  the row 10000. The first run of \<open>main\<close> sends the notification of 10000, adds the id and
  ends without an exception; \<open>save_state\<close> writes the 3000 ids that are greatest as
  strings, which leaves out 10000. The second run of \<open>main\<close>, on the same page and from
  the file that the first one wrote, finds 10000 new and sends its notification again.
\<close>

theorem capped_state_renotifies:
  "fst (main latin1 env_10000 [target_s] file_3000 start) = None
   \<and> out (snd (main latin1 env_10000 [target_s] file_3000 start))
       = [Print_fetched (u ''s'') 1,
          Post (NewItemMsg (u ''s'') (u ''N'') (u ''http://h/n'')) True,
          Print_sent (u ''s'') (u ''10000'') (u ''N''),
          Write_state]
   \<and> disk (snd (main latin1 env_10000 [target_s] file_3000 start))
       = Some (map_of [(u ''s'', compact_ids ids_3001)])
   \<and> out (snd (main latin1 env_10000 [target_s]
                  (Some [(u ''s'', compact_ids ids_3001)]) start))
       = [Print_fetched (u ''s'') 1,
          Post (NewItemMsg (u ''s'') (u ''N'') (u ''http://h/n'')) True,
          Print_sent (u ''s'') (u ''10000'') (u ''N''),
          Write_state]"
  using main_10000[OF id_10000_fresh] main_10000(2)[OF id_10000_dropped]
  by (simp add: file_3000_def ids_3001_def)

end
